theory Spec2Isabelle
  imports
    Main
    "HOL-Library.Finite_Map"
    "HOL-Library.Multiset"
    "HOL-Library.List_Lexorder"
    "HOL-Library.Char_ord"
    "HOL-Library.Sublist"
begin

section \<open>The machines package of zsys: triage and attachment of ZFS datasets\<close>

text \<open>
  This theory embeds \<^verbatim>\<open>internal/machines/machines.go\<close>. Go strings are byte strings
  (\<^typ>\<open>string\<close>), Go maps with string keys are finite maps, a nil pointer is \<^term>\<open>None\<close>,
  a panic is a value of type \<open>panic\<close>. A nil slice and an empty slice are both \<^term>\<open>[]\<close>
  (the code only ranges over slices, appends to them and serialises them with
  \<^verbatim>\<open>omitempty\<close>).
\<close>

subsection \<open>The functions of Go's standard library that the package calls\<close>

text \<open>\<^verbatim>\<open>strings.HasPrefix\<close>: \<^verbatim>\<open>len(s) >= len(prefix) && s[:len(prefix)] == prefix\<close>.\<close>

definition HasPrefix :: "string \<Rightarrow> string \<Rightarrow> bool" where
  "HasPrefix s pre \<longleftrightarrow> length pre \<le> length s \<and> take (length pre) s = pre"

text \<open>\<^verbatim>\<open>strings.HasSuffix\<close>: \<^verbatim>\<open>len(s) >= len(suffix) && s[len(s)-len(suffix):] == suffix\<close>.\<close>

definition HasSuffix :: "string \<Rightarrow> string \<Rightarrow> bool" where
  "HasSuffix s suf \<longleftrightarrow> length suf \<le> length s \<and> drop (length s - length suf) s = suf"

text \<open>\<^verbatim>\<open>strings.Contains\<close>: some position of \<open>s\<close> starts an occurrence of \<open>substr\<close>.\<close>

fun Contains :: "string \<Rightarrow> string \<Rightarrow> bool" where
  "Contains [] substr = (substr = [])"
| "Contains (c # s) substr = (HasPrefix (c # s) substr \<or> Contains s substr)"

text \<open>
  \<^verbatim>\<open>strings.Split(s, sep)\<close> for a separator of one byte, which is every use in the
  package (\<^verbatim>\<open>"/"\<close>, \<^verbatim>\<open>":"\<close>, \<^verbatim>\<open>"_"\<close>, \<^verbatim>\<open>"@"\<close>): the substrings between the
  separators, one more than there are separators.
\<close>

fun Split :: "string \<Rightarrow> char \<Rightarrow> string list" where
  "Split [] sep = [[]]"
| "Split (c # s) sep =
     (if c = sep then [] # Split s sep
      else (case Split s sep of [] \<Rightarrow> [[c]] | a # rest \<Rightarrow> (c # a) # rest))"

text \<open>\<^verbatim>\<open>strings.Join\<close>.\<close>

fun Join :: "string list \<Rightarrow> string \<Rightarrow> string" where
  "Join [] sep = []"
| "Join [a] sep = a"
| "Join (a # b # elems) sep = a @ sep @ Join (b # elems) sep"

text \<open>
  \<^verbatim>\<open>strings.LastIndex(s, sep)\<close> for a separator of one byte: the index of its last
  occurrence, or -1.
\<close>

fun LastIndex_from :: "int \<Rightarrow> string \<Rightarrow> char \<Rightarrow> int \<Rightarrow> int" where
  "LastIndex_from i [] sep found = found"
| "LastIndex_from i (c # s) sep found =
     LastIndex_from (i + 1) s sep (if c = sep then i else found)"

definition LastIndex :: "string \<Rightarrow> char \<Rightarrow> int" where
  "LastIndex s sep = LastIndex_from 0 s sep (- 1)"

text \<open>
  \<^verbatim>\<open>strings.ToLower\<close> on ASCII: the bytes \<open>A\<close> to \<open>Z\<close> move to \<open>a\<close> to \<open>z\<close>, every
  other byte stays.
\<close>

definition ToLower_char :: "char \<Rightarrow> char" where
  "ToLower_char c =
     (if CHR ''A'' \<le> c \<and> c \<le> CHR ''Z'' then char_of (of_char c + (32::nat)) else c)"

definition ToLower :: "string \<Rightarrow> string" where
  "ToLower s = map ToLower_char s"

text \<open>
  \<^verbatim>\<open>filepath.Base\<close> (Unix): the empty path gives \<^verbatim>\<open>"."\<close>; trailing slashes are
  stripped; what follows the last slash is returned, and \<^verbatim>\<open>"/"\<close> if nothing is left.
\<close>

fun stripTrailingSlashes :: "string \<Rightarrow> string" where
  "stripTrailingSlashes [] = []"
| "stripTrailingSlashes (c # s) =
     (case stripTrailingSlashes s of
        [] \<Rightarrow> if c = CHR ''/'' then [] else [c]
      | a # r \<Rightarrow> c # a # r)"

definition Base :: "string \<Rightarrow> string" where
  "Base path =
     (if path = [] then ''.''
      else let p = last (Split (stripTrailingSlashes path) CHR ''/'')
           in if p = [] then ''/'' else p)"

text \<open>\<^verbatim>\<open>strconv.Itoa\<close>: the decimal digits, after a minus sign for a negative number.\<close>

definition digit_char :: "nat \<Rightarrow> char" where
  "digit_char n = char_of (48 + n)"

fun digits :: "nat \<Rightarrow> string" where
  "digits n = (if n < 10 then [digit_char n] else digits (n div 10) @ [digit_char (n mod 10)])"

declare digits.simps [simp del]

definition Itoa :: "int \<Rightarrow> string" where
  "Itoa i = (if i < 0 then CHR ''-'' # digits (nat (- i)) else digits (nat i))"

text \<open>\<^verbatim>\<open>time.Unix(sec, nsec)\<close>; a \<^verbatim>\<open>*time.Time\<close> is a \<open>time option\<close>.\<close>

datatype time = Unix (sec: int) (nsec: int)

subsection \<open>The data model\<close>

text \<open>
  Modelled from the spec: the type \<^verbatim>\<open>zfs.Dataset\<close> is declared in the zfs package.
  These are the attributes of a volume that the specification lists; the machines
  package reads all of them but \<open>Origin\<close>, which only the origin resolver reads.

  A \<^verbatim>\<open>*zfs.Dataset\<close> is modelled by the dataset it points to. The package never writes
  through such a pointer, and every pointer it holds is the address of its own copy of
  one volume of the inventory, so two pointers are equal exactly when they stand for
  the same volume; volumes are identified by \<open>Name\<close>.
\<close>

record Dataset =
  Name :: string
  Mountpoint :: string
  CanMount :: string
  IsSnapshot :: bool
  BootFS :: bool
  BootfsDatasets :: string
  LastUsed :: int
  Origin :: string

text \<open>
  \<^verbatim>\<open>State\<close>, \<^verbatim>\<open>UserState\<close>, \<^verbatim>\<open>Machine\<close> (which embeds \<^verbatim>\<open>State\<close>) and
  \<^verbatim>\<open>Machines\<close>. The field \<^verbatim>\<open>State.LastUsed\<close> is \<open>StateLastUsed\<close> and
  \<^verbatim>\<open>UserState.ID\<close> is \<open>UserStateID\<close>, since a field name is global here.
  \<open>Users\<close> is \<^term>\<open>None\<close> when the Go map is nil, which is how
  \<^verbatim>\<open>attachRemainingDatasets\<close> leaves it. \<open>History\<close> and \<open>all\<close> are never nil:
  \<^verbatim>\<open>newMachineFromDataset\<close>, \<^verbatim>\<open>New\<close> and \<^verbatim>\<open>Refresh\<close> make them.
  A \<^verbatim>\<open>*State\<close> in \<open>History\<close> is reachable through its map entry only, so it is the
  entry's value.
\<close>

record State =
  ID :: string
  IsZsys :: bool
  StateLastUsed :: "time option"
  SystemDatasets :: "Dataset list"
  UserDatasets :: "Dataset list"
  PersistentDatasets :: "Dataset list"

record UserState =
  UserStateID :: string
  Datasets :: "Dataset list"

type_synonym users = "(string, (string, UserState) fmap) fmap"

record Machine = State +
  Users :: "users option"
  History :: "(string, State) fmap"

text \<open>
  The handle \<^verbatim>\<open>*zfs.Zfs\<close> is modelled by the list of datasets that its method
  \<^verbatim>\<open>Datasets()\<close> returns.
\<close>

type_synonym Zfs = "Dataset list"

record Machines =
  all :: "(string, Machine) fmap"
  cmdline :: string
  current :: "Machine option"
  nextState :: "State option"
  allSystemDatasets :: "Dataset list"
  allUsersDatasets :: "Dataset list"
  z :: Zfs

record originAndChildren =
  origin :: string
  children :: "Dataset list"

text \<open>The run-time panics that the package can raise.\<close>

datatype panic = NilDereference | NilMapWrite | IndexOutOfRange

subsection \<open>Ranging over a map\<close>

text \<open>
  Go leaves the order of \<^verbatim>\<open>for k := range m\<close> over a map unspecified, and it may
  differ from one loop to the next. Every such loop of the model takes an \<open>order\<close>:
  the permutation that the run time applies to the keys. The loop ranges over
  \<open>\<pi> ks\<close>, where \<open>ks\<close> lists the keys of the map.
\<close>

type_synonym 'k order = "'k list \<Rightarrow> 'k list"

definition is_order :: "'k order \<Rightarrow> bool" where
  "is_order \<pi> \<longleftrightarrow> (\<forall>ks. mset (\<pi> ks) = mset ks)"

text \<open>
  Modelled from the spec: \<^verbatim>\<open>sortedMachineKeys\<close> and \<^verbatim>\<open>sortedStateKeys\<close> are
  helpers of the package that this file calls; they return the keys of the map in
  lexicographic order.
\<close>

definition keys :: "(string, 'v) fmap \<Rightarrow> string list" where
  "keys m = sorted_list_of_fset (fmdom m)"

definition sortedMachineKeys :: "(string, Machine) fmap \<Rightarrow> string list" where
  "sortedMachineKeys m = keys m"

definition sortedStateKeys :: "(string, State) fmap \<Rightarrow> string list" where
  "sortedStateKeys m = keys m"

subsection \<open>\<^verbatim>\<open>newMachineFromDataset\<close>\<close>

text \<open>
  The argument \<open>orig\<close> is the \<^verbatim>\<open>*string\<close> found in the map of resolved origins:
  \<^term>\<open>None\<close> when the origin could not be resolved.
\<close>

definition newMachineFromDataset :: "Dataset \<Rightarrow> string option \<Rightarrow> Machine option" where
  "newMachineFromDataset d orig =
     (if Mountpoint d = ''/'' \<and> CanMount d \<noteq> ''off'' \<and> orig = Some '''' then
        let m = \<lparr>ID = Name d, IsZsys = BootFS d, StateLastUsed = None,
                 SystemDatasets = [d], UserDatasets = [], PersistentDatasets = [],
                 Users = Some fmempty, History = fmempty\<rparr>
        in Some (if LastUsed d \<noteq> 0 then m\<lparr>StateLastUsed := Some (Unix (LastUsed d) 0)\<rparr> else m)
      else None)"

subsection \<open>\<^verbatim>\<open>attachSystemAndHistory\<close>\<close>

text \<open>
  The helper \<^verbatim>\<open>isChild(name, d)\<close> is declared elsewhere in the package; it is a
  parameter here. It returns \<^term>\<open>None\<close> when the Go function returns an error (which
  the caller logs) and otherwise its boolean.
\<close>

type_synonym isChild = "string \<Rightarrow> Dataset \<Rightarrow> bool option"

text \<open>The orders of the two loops over maps: \<^verbatim>\<open>machines.all\<close>, and \<^verbatim>\<open>m.History\<close>
  for the machine of each key.\<close>

record triage_orders =
  machines_order :: "string order"
  history_order :: "string \<Rightarrow> string order"

text \<open>The state that \<^verbatim>\<open>attachSystemAndHistory\<close> builds for a clone or snapshot of a
  root dataset.\<close>

definition historyState :: "Dataset \<Rightarrow> State" where
  "historyState d =
     (let h = \<lparr>ID = Name d, IsZsys = BootFS d, StateLastUsed = None,
               SystemDatasets = [d], UserDatasets = [], PersistentDatasets = []\<rparr>
      in if LastUsed d \<noteq> 0 then h\<lparr>StateLastUsed := Some (Unix (LastUsed d) 0)\<rparr> else h)"

text \<open>The inner loop \<^verbatim>\<open>for _, h := range m.History\<close>: the first history state of
  which \<open>d\<close> is a child takes it.\<close>

fun attachHistoryChild ::
  "isChild \<Rightarrow> Dataset \<Rightarrow> (string, State) fmap \<Rightarrow> string list \<Rightarrow> (string, State) fmap option"
where
  "attachHistoryChild isChild d hist [] = None"
| "attachHistoryChild isChild d hist (k # ks) =
     (case fmlookup hist k of
        None \<Rightarrow> attachHistoryChild isChild d hist ks
      | Some h \<Rightarrow>
          if isChild (ID h) d = Some True
          then Some (fmupd k (h\<lparr>SystemDatasets := SystemDatasets h @ [d]\<rparr>) hist)
          else attachHistoryChild isChild d hist ks)"

text \<open>The outer loop \<^verbatim>\<open>for _, m := range machines.all\<close> over the keys \<open>ks\<close>.\<close>

fun attachSystemAndHistory_range ::
  "isChild \<Rightarrow> triage_orders \<Rightarrow> Dataset \<Rightarrow> string option \<Rightarrow> (string, Machine) fmap \<Rightarrow>
   string list \<Rightarrow> bool \<times> (string, Machine) fmap"
where
  "attachSystemAndHistory_range isChild \<pi> d orig ms [] = (False, ms)"
| "attachSystemAndHistory_range isChild \<pi> d orig ms (k # ks) =
     (case fmlookup ms k of
        None \<Rightarrow> attachSystemAndHistory_range isChild \<pi> d orig ms ks
      | Some m \<Rightarrow>
          if isChild (ID m) d = Some True then
            (True, fmupd k (m\<lparr>SystemDatasets := SystemDatasets m @ [d]\<rparr>) ms)
          else if Mountpoint d = ''/'' \<and> CanMount d \<noteq> ''off'' \<and> orig = Some (ID m) then
            (True, fmupd k (m\<lparr>History := fmupd (Name d) (historyState d) (History m)\<rparr>) ms)
          else
            (case attachHistoryChild isChild d (History m)
                    (history_order \<pi> k (keys (History m))) of
               Some hist \<Rightarrow> (True, fmupd k (m\<lparr>History := hist\<rparr>) ms)
             | None \<Rightarrow> attachSystemAndHistory_range isChild \<pi> d orig ms ks))"

definition attachSystemAndHistory ::
  "isChild \<Rightarrow> triage_orders \<Rightarrow> Machines \<Rightarrow> Dataset \<Rightarrow> string option \<Rightarrow> bool \<times> Machines"
where
  "attachSystemAndHistory isChild \<pi> machines d orig =
     (let (ok, ms) = attachSystemAndHistory_range isChild \<pi> d orig (all machines)
                       (machines_order \<pi> (keys (all machines)))
      in (ok, machines\<lparr>all := ms\<rparr>))"

subsection \<open>\<^verbatim>\<open>triageDatasets\<close>\<close>

text \<open>The results \<^verbatim>\<open>boots\<close>, \<^verbatim>\<open>userdatas\<close> and \<^verbatim>\<open>persistents\<close>, with the receiver.\<close>

record triage =
  machines :: Machines
  boots :: "Dataset list"
  userdatas :: "Dataset list"
  persistents :: "Dataset list"

definition userdatasetsContainerName :: string where
  "userdatasetsContainerName = ''/userdata/''"

text \<open>One turn of the loop of \<^verbatim>\<open>triageDatasets\<close>, for the dataset \<open>d\<close>.\<close>

definition triageDataset ::
  "isChild \<Rightarrow> triage_orders \<Rightarrow> (string, string) fmap \<Rightarrow> Dataset \<Rightarrow> triage \<Rightarrow> triage"
where
  "triageDataset isChild \<pi> origins d t =
     (case newMachineFromDataset d (fmlookup origins (Name d)) of
        Some m \<Rightarrow> t\<lparr>machines := (machines t)\<lparr>all := fmupd (Name d) m (all (machines t))\<rparr>\<rparr>
      | None \<Rightarrow>
          let (ok, machines') =
                attachSystemAndHistory isChild \<pi> (machines t) d (fmlookup origins (Name d))
          in if ok then t\<lparr>machines := machines'\<rparr>
             else if HasPrefix (Mountpoint d) ''/boot'' then
               t\<lparr>machines := machines', boots := boots t @ [d]\<rparr>
             else if Contains (ToLower (Name d)) userdatasetsContainerName then
               t\<lparr>machines := machines', userdatas := userdatas t @ [d]\<rparr>
             else if CanMount d \<noteq> ''on'' then t\<lparr>machines := machines'\<rparr>
             else t\<lparr>machines := machines', persistents := persistents t @ [d]\<rparr>)"

text \<open>The loop; turn \<open>i\<close> ranges over the maps in the orders \<open>\<pi> i\<close>.\<close>

fun triageDatasets_from ::
  "isChild \<Rightarrow> (nat \<Rightarrow> triage_orders) \<Rightarrow> (string, string) fmap \<Rightarrow> nat \<Rightarrow> Dataset list \<Rightarrow>
   triage \<Rightarrow> triage"
where
  "triageDatasets_from isChild \<pi> origins i [] t = t"
| "triageDatasets_from isChild \<pi> origins i (d # ds) t =
     triageDatasets_from isChild \<pi> origins (Suc i) ds (triageDataset isChild (\<pi> i) origins d t)"

definition triageDatasets ::
  "isChild \<Rightarrow> (nat \<Rightarrow> triage_orders) \<Rightarrow> Machines \<Rightarrow> Dataset list \<Rightarrow> (string, string) fmap \<Rightarrow>
   triage"
where
  "triageDatasets isChild \<pi> ms allDatasets origins =
     triageDatasets_from isChild \<pi> origins 0 allDatasets
       \<lparr>machines = ms, boots = [], userdatas = [], persistents = []\<rparr>"

subsection \<open>\<^verbatim>\<open>attachRemainingDatasetsForHistory\<close>\<close>

text \<open>
  The test on the tag \<^verbatim>\<open>BootfsDatasets\<close> of a dataset, written twice in
  \<^verbatim>\<open>attachRemainingDatasets\<close> and once here:
  \<^verbatim>\<open>for _, bootfsDataset := range strings.Split(d.BootfsDatasets, ":")\<close> with the condition
  \<^verbatim>\<open>bootfsDataset == ident || strings.HasPrefix(d.BootfsDatasets, ident+"/")\<close>.
  \<open>valid\<close> is the loop that sets a flag and goes on; \<open>linked\<close> is the loop that
  appends the dataset and breaks, and tells whether it did.
\<close>

definition valid :: "string \<Rightarrow> string \<Rightarrow> bool" where
  "valid ident bootfsDatasets =
     fold (\<lambda>bootfsDataset v.
             if bootfsDataset = ident \<or> HasPrefix bootfsDatasets (ident @ ''/'') then True else v)
          (Split bootfsDatasets CHR '':'') False"

fun linked_range :: "string \<Rightarrow> string \<Rightarrow> string list \<Rightarrow> bool" where
  "linked_range ident bootfsDatasets [] = False"
| "linked_range ident bootfsDatasets (bootfsDataset # rest) =
     (if bootfsDataset = ident \<or> HasPrefix bootfsDatasets (ident @ ''/'') then True
      else linked_range ident bootfsDatasets rest)"

definition linked :: "string \<Rightarrow> Dataset \<Rightarrow> bool" where
  "linked ident d = linked_range ident (BootfsDatasets d) (Split (BootfsDatasets d) CHR '':'')"

text \<open>The orders of the loops over \<^verbatim>\<open>userdatas\<close> (the users of the machine) and over
  \<^verbatim>\<open>userdatas[user]\<close> for each user.\<close>

record history_orders =
  h_users_order :: "string order"
  h_states_order :: "string \<Rightarrow> string order"

definition snapshotOf :: "string \<Rightarrow> string" where
  "snapshotOf stateDatasetID =
     (let j = LastIndex stateDatasetID CHR ''@''
      in if j > 0 then drop (nat (j + 1)) stateDatasetID else '''')"

text \<open>The boot datasets of a history state.\<close>

definition historyBoots :: "string \<Rightarrow> Dataset list \<Rightarrow> Dataset list" where
  "historyBoots ident bs =
     (let stateDatasetID = last (Split ident CHR ''/'');
          snapshot = snapshotOf stateDatasetID
      in filter (\<lambda>d. if snapshot \<noteq> '''' \<and> HasSuffix (Name d) (''@'' @ snapshot) then True
                      else HasSuffix (Name d) stateDatasetID
                           \<or> Contains (Name d) (''/'' @ stateDatasetID @ ''/'')) bs)"

text \<open>The loop over the states of one user when the history state is a snapshot.\<close>

fun snapshotUserDatasets ::
  "string \<Rightarrow> (string, UserState) fmap \<Rightarrow> string list \<Rightarrow> Dataset list \<Rightarrow> panic + Dataset list"
where
  "snapshotUserDatasets snapshot slots [] userDatasets = Inr userDatasets"
| "snapshotUserDatasets snapshot slots (k # ks) userDatasets =
     (case fmlookup slots k of
        None \<Rightarrow> snapshotUserDatasets snapshot slots ks userDatasets
      | Some userState \<Rightarrow>
          (case Datasets userState of
             [] \<Rightarrow> Inl IndexOutOfRange
           | d0 # _ \<Rightarrow>
               if \<not> IsSnapshot d0 then snapshotUserDatasets snapshot slots ks userDatasets
               else if UserStateID userState = snapshot then
                 snapshotUserDatasets snapshot slots ks (userDatasets @ Datasets userState)
               else snapshotUserDatasets snapshot slots ks userDatasets))"

text \<open>The loop over the states of one user when the history state is a clone: it stops
  after the first state that has a linked dataset.\<close>

fun cloneUserDatasets ::
  "string \<Rightarrow> (string, UserState) fmap \<Rightarrow> string list \<Rightarrow> Dataset list \<Rightarrow> panic + Dataset list"
where
  "cloneUserDatasets ident slots [] userDatasets = Inr userDatasets"
| "cloneUserDatasets ident slots (k # ks) userDatasets =
     (case fmlookup slots k of
        None \<Rightarrow> cloneUserDatasets ident slots ks userDatasets
      | Some userState \<Rightarrow>
          (case Datasets userState of
             [] \<Rightarrow> Inl IndexOutOfRange
           | d0 # _ \<Rightarrow>
               if IsSnapshot d0 then cloneUserDatasets ident slots ks userDatasets
               else
                 let found = filter (linked ident) (Datasets userState)
                 in if found \<noteq> [] then Inr (userDatasets @ found)
                    else cloneUserDatasets ident slots ks userDatasets))"

text \<open>The loop over the users.\<close>

fun historyUserDatasets ::
  "history_orders \<Rightarrow> string \<Rightarrow> string \<Rightarrow> users \<Rightarrow> string list \<Rightarrow> Dataset list \<Rightarrow>
   panic + Dataset list"
where
  "historyUserDatasets \<pi> ident snapshot us [] userDatasets = Inr userDatasets"
| "historyUserDatasets \<pi> ident snapshot us (user # rest) userDatasets =
     (case fmlookup us user of
        None \<Rightarrow> historyUserDatasets \<pi> ident snapshot us rest userDatasets
      | Some slots \<Rightarrow>
          (case (if snapshot \<noteq> ''''
                 then snapshotUserDatasets snapshot slots
                        (h_states_order \<pi> user (keys slots)) userDatasets
                 else cloneUserDatasets ident slots
                        (h_states_order \<pi> user (keys slots)) userDatasets) of
             Inl p \<Rightarrow> Inl p
           | Inr userDatasets' \<Rightarrow> historyUserDatasets \<pi> ident snapshot us rest userDatasets'))"

text \<open>The argument \<open>us\<close> is the map \<^verbatim>\<open>m.Users\<close> of the machine; a loop over a nil map
  has no turn.\<close>

definition attachRemainingDatasetsForHistory ::
  "history_orders \<Rightarrow> State \<Rightarrow> Dataset list \<Rightarrow> Dataset list \<Rightarrow> users option \<Rightarrow> panic + State"
where
  "attachRemainingDatasetsForHistory \<pi> h bs ps us =
     (let snapshot = snapshotOf (last (Split (ID h) CHR ''/''));
          h1 = h\<lparr>SystemDatasets := SystemDatasets h @ historyBoots (ID h) bs\<rparr>
      in case (case us of
                 None \<Rightarrow> Inr []
               | Some u \<Rightarrow> historyUserDatasets \<pi> (ID h) snapshot u
                             (h_users_order \<pi> (keys u)) []) of
           Inl p \<Rightarrow> Inl p
         | Inr userDatasets \<Rightarrow>
             Inr (h1\<lparr>UserDatasets := UserDatasets h1 @ userDatasets,
                     PersistentDatasets := ps\<rparr>))"

subsection \<open>\<^verbatim>\<open>attachRemainingDatasets\<close>\<close>

text \<open>
  The map \<^verbatim>\<open>userdatas\<close> has pointers for keys; it is an association list from the
  root user datasets to their origin and children, and a loop over it ranges over
  \<open>\<pi> (map fst userdatas)\<close>.
\<close>

type_synonym userdatas = "(Dataset \<times> originAndChildren) list"

record machine_orders =
  roots_order :: "Dataset order"
  userdatas_order :: "Dataset order"
  users_order :: "string order"
  histories_orders :: "string \<Rightarrow> history_orders"

text \<open>The boot datasets of the machine.\<close>

definition machineBoots :: "string \<Rightarrow> Dataset list \<Rightarrow> Dataset list" where
  "machineBoots ident bs =
     (let machineDatasetID = last (Split ident CHR ''/'')
      in filter (\<lambda>d. \<not> IsSnapshot d \<and>
                      (HasSuffix (Name d) (''/'' @ machineDatasetID)
                       \<or> Contains (Name d) (''/'' @ machineDatasetID @ ''/''))) bs)"

text \<open>The first loop over \<^verbatim>\<open>userdatas\<close>: the root user datasets of this machine.\<close>

definition userRootDatasets :: "Dataset order \<Rightarrow> string \<Rightarrow> userdatas \<Rightarrow> Dataset list" where
  "userRootDatasets \<pi> ident ud =
     filter (\<lambda>r. \<not> IsSnapshot r \<and> valid ident (BootfsDatasets r)) (\<pi> (map fst ud))"

text \<open>\<^verbatim>\<open>userdatas[userRootDataset].origin\<close>; a missing key gives the zero value.\<close>

definition originOf :: "userdatas \<Rightarrow> Dataset \<Rightarrow> string" where
  "originOf ud r = (case map_of ud r of None \<Rightarrow> '''' | Some dprop \<Rightarrow> origin dprop)"

text \<open>Step 1 of the second loop: is the root user dataset \<open>r\<close> relative to the machine?\<close>

definition relative :: "userdatas \<Rightarrow> Dataset list \<Rightarrow> Dataset \<Rightarrow> originAndChildren \<Rightarrow> bool" where
  "relative ud roots r dprop =
     fold (\<lambda>userRootDataset rel.
             let originUserRootDataset = originOf ud userRootDataset
             in if r = userRootDataset
                   \<or> (origin dprop \<noteq> '''' \<and> origin dprop = originUserRootDataset)
                   \<or> (originUserRootDataset = '''' \<and> origin dprop = Name userRootDataset)
                   \<or> (origin dprop = '''' \<and> originUserRootDataset = Name r)
                then True else rel)
          roots False"

text \<open>Step 2: the name of the user.\<close>

definition userName :: "Dataset \<Rightarrow> string" where
  "userName r =
     (let t = Split (Base (Name r)) CHR ''_''
      in if length t > 1 then Join (butlast t) ''_'' else hd t)"

text \<open>Step 3: the timestamp of the state, and the state.\<close>

definition timestampOf :: "Dataset list \<Rightarrow> Dataset \<Rightarrow> string" where
  "timestampOf roots r = (if r \<in> set roots then ''current'' else Itoa (LastUsed r))"

definition newUserState :: "Dataset \<Rightarrow> originAndChildren \<Rightarrow> UserState" where
  "newUserState r dprop =
     (let delimiter = (if IsSnapshot r then CHR ''@'' else CHR ''_'');
          t = Split (Base (Name r)) delimiter
      in \<lparr>UserStateID = (if length t > 1 then last t else ''''),
          Datasets = r # children dprop\<rparr>)"

text \<open>The second loop over \<^verbatim>\<open>userdatas\<close>, in the order \<open>rs\<close>, building \<^verbatim>\<open>m.Users\<close>.\<close>

fun buildUsers ::
  "userdatas \<Rightarrow> Dataset list \<Rightarrow> Dataset list \<Rightarrow> users option \<Rightarrow> panic + users option"
where
  "buildUsers ud roots [] us = Inr us"
| "buildUsers ud roots (r # rs) us =
     (case map_of ud r of
        None \<Rightarrow> buildUsers ud roots rs us
      | Some dprop \<Rightarrow>
          if \<not> relative ud roots r dprop then buildUsers ud roots rs us
          else
            (case us of
               None \<Rightarrow> Inl NilMapWrite
             | Some u \<Rightarrow>
                 let user = userName r;
                     u1 = (if fmlookup u user = None then fmupd user fmempty u else u);
                     slots = (case fmlookup u1 user of None \<Rightarrow> fmempty | Some s \<Rightarrow> s);
                     timestamp = timestampOf roots r
                 in if fmlookup slots timestamp = None then
                      buildUsers ud roots rs
                        (Some (fmupd user (fmupd timestamp (newUserState r dprop) slots) u1))
                    else buildUsers ud roots rs (Some u1)))"

text \<open>The loop over \<^verbatim>\<open>m.Users\<close> that attaches the datasets of the state
  \<^verbatim>\<open>"current"\<close> of each user.\<close>

fun currentUserDatasets :: "string \<Rightarrow> users \<Rightarrow> string list \<Rightarrow> Dataset list \<Rightarrow> Dataset list" where
  "currentUserDatasets ident us [] userDatasets = userDatasets"
| "currentUserDatasets ident us (user # rest) userDatasets =
     (case fmlookup us user of
        None \<Rightarrow> currentUserDatasets ident us rest userDatasets
      | Some slots \<Rightarrow>
          (case fmlookup slots ''current'' of
             None \<Rightarrow> currentUserDatasets ident us rest userDatasets
           | Some userState \<Rightarrow>
               currentUserDatasets ident us rest
                 (userDatasets @ filter (linked ident) (Datasets userState))))"

text \<open>The loop over the history states, in the order of their sorted keys.\<close>

fun attachHistories ::
  "(string \<Rightarrow> history_orders) \<Rightarrow> Dataset list \<Rightarrow> Dataset list \<Rightarrow> users option \<Rightarrow> string list \<Rightarrow>
   (string, State) fmap \<Rightarrow> panic + (string, State) fmap"
where
  "attachHistories \<pi> bs ps us [] hist = Inr hist"
| "attachHistories \<pi> bs ps us (k # ks) hist =
     (case fmlookup hist k of
        None \<Rightarrow> Inl NilDereference
      | Some h \<Rightarrow>
          (case attachRemainingDatasetsForHistory (\<pi> k) h bs ps us of
             Inl p \<Rightarrow> Inl p
           | Inr h' \<Rightarrow> attachHistories \<pi> bs ps us ks (fmupd k h' hist)))"

definition attachRemainingDatasets ::
  "machine_orders \<Rightarrow> Machine \<Rightarrow> Dataset list \<Rightarrow> Dataset list \<Rightarrow> userdatas \<Rightarrow> panic + Machine"
where
  "attachRemainingDatasets \<pi> m bs ps ud =
     (let m1 = m\<lparr>SystemDatasets := SystemDatasets m @ machineBoots (ID m) bs\<rparr>;
          roots = userRootDatasets (roots_order \<pi>) (ID m) ud
      in case buildUsers ud roots (userdatas_order \<pi> (map fst ud)) (Users m1) of
           Inl p \<Rightarrow> Inl p
         | Inr us \<Rightarrow>
             let m2 = m1\<lparr>Users := us\<rparr>;
                 m3 = (case us of
                         None \<Rightarrow> m2
                       | Some u \<Rightarrow>
                           m2\<lparr>UserDatasets :=
                                currentUserDatasets (ID m) u (users_order \<pi> (keys u))
                                  (UserDatasets m2)\<rparr>);
                 m4 = m3\<lparr>PersistentDatasets := ps\<rparr>
             in case attachHistories (histories_orders \<pi>) bs ps (Users m4)
                       (sortedStateKeys (History m4)) (History m4) of
                  Inl p \<Rightarrow> Inl p
                | Inr hist \<Rightarrow> Inr (m4\<lparr>History := hist, Users := None\<rparr>))"

subsection \<open>\<^verbatim>\<open>refresh\<close> and \<^verbatim>\<open>Refresh\<close>\<close>

text \<open>
  The functions that \<^verbatim>\<open>refresh\<close> calls and that are declared elsewhere in the
  package are parameters, gathered in a record:
  \<^item> \<open>sortedDataset\<close>: \<^verbatim>\<open>sort.Sort(sortedDataset)\<close>, the datasets sorted so that
    children come after their parents;
  \<^item> \<open>resolveOrigin\<close>: the map from dataset names to resolved origins; a name without
    an entry has the nil pointer;
  \<^item> \<open>isChild\<close>;
  \<^item> \<open>getRootDatasets\<close>: the root user datasets, each with its children;
  \<^item> \<open>appendIfNotPresent\<close>;
  \<^item> \<open>bootParametersFromCmdline\<close> and \<open>findFromRoot\<close>, of which \<^verbatim>\<open>refresh\<close>
    keeps the first result only.
\<close>

record helpers =
  sortedDataset :: "Dataset list \<Rightarrow> Dataset list"
  resolveOrigin :: "Dataset list \<Rightarrow> string \<Rightarrow> (string, string) fmap"
  isChild :: isChild
  getRootDatasets :: "Dataset list \<Rightarrow> (Dataset \<times> Dataset list) list"
  appendIfNotPresent :: "Dataset list \<Rightarrow> Dataset list \<Rightarrow> bool \<Rightarrow> Dataset list"
  bootParametersFromCmdline :: "string \<Rightarrow> string"
  findFromRoot :: "Machines \<Rightarrow> string \<Rightarrow> Machine option"

text \<open>The orders of the loops over maps in one pass: those of each turn of the triage,
  that of the loop collecting the root user datasets, those of each machine.\<close>

record refresh_orders =
  triage_order :: "nat \<Rightarrow> triage_orders"
  rootsOnly_order :: "Dataset order"
  machine_order :: "string \<Rightarrow> machine_orders"

text \<open>The three groups of datasets: main, clones and others.\<close>

definition mainDatasets :: "(string, string) fmap \<Rightarrow> Dataset list \<Rightarrow> Dataset list" where
  "mainDatasets origins ds = filter (\<lambda>d. fmlookup origins (Name d) = Some '''') ds"

definition cloneDatasets :: "(string, string) fmap \<Rightarrow> Dataset list \<Rightarrow> Dataset list" where
  "cloneDatasets origins ds =
     filter (\<lambda>d. case fmlookup origins (Name d) of None \<Rightarrow> False | Some orig \<Rightarrow> orig \<noteq> '''') ds"

definition otherDatasets :: "(string, string) fmap \<Rightarrow> Dataset list \<Rightarrow> Dataset list" where
  "otherDatasets origins ds = filter (\<lambda>d. fmlookup origins (Name d) = None) ds"

text \<open>
  The loop that fills \<^verbatim>\<open>userdatas\<close>. It dereferences
  \<^verbatim>\<open>originsUserDatasets[k.Name]\<close>, which is nil when the origin of the root user
  dataset \<open>k\<close> was not resolved. Whether it panics does not depend on the order.
\<close>

fun userdatasOf ::
  "(string, string) fmap \<Rightarrow> (Dataset \<times> Dataset list) list \<Rightarrow> panic + userdatas"
where
  "userdatasOf originsUserDatasets [] = Inr []"
| "userdatasOf originsUserDatasets ((k, ds) # rest) =
     (case fmlookup originsUserDatasets (Name k) of
        None \<Rightarrow> Inl NilDereference
      | Some orig \<Rightarrow>
          (case userdatasOf originsUserDatasets rest of
             Inl p \<Rightarrow> Inl p
           | Inr ud \<Rightarrow> Inr ((k, \<lparr>origin = orig, children = ds\<rparr>) # ud)))"

text \<open>The system datasets of the history states of a machine, in the order of the
  sorted keys.\<close>

definition historySystemDatasets :: "(string, State) fmap \<Rightarrow> Dataset list" where
  "historySystemDatasets hist =
     concat (map (\<lambda>k. case fmlookup hist k of None \<Rightarrow> [] | Some h \<Rightarrow> SystemDatasets h)
                 (sortedStateKeys hist))"

text \<open>The loop over the machines, in the order of their sorted keys.\<close>

fun attachMachines ::
  "(string \<Rightarrow> machine_orders) \<Rightarrow> Dataset list \<Rightarrow> Dataset list \<Rightarrow> userdatas \<Rightarrow> string list \<Rightarrow>
   Machines \<Rightarrow> panic + Machines"
where
  "attachMachines \<pi> bs ps ud [] ms = Inr ms"
| "attachMachines \<pi> bs ps ud (k # ks) ms =
     (case fmlookup (all ms) k of
        None \<Rightarrow> Inl NilDereference
      | Some m \<Rightarrow>
          (case attachRemainingDatasets (\<pi> k) m bs ps ud of
             Inl p \<Rightarrow> Inl p
           | Inr m' \<Rightarrow>
               attachMachines \<pi> bs ps ud ks
                 (ms\<lparr>all := fmupd k m' (all ms),
                     allSystemDatasets :=
                       allSystemDatasets ms @ SystemDatasets m'
                       @ historySystemDatasets (History m')\<rparr>)))"

text \<open>\<^verbatim>\<open>refresh\<close> returns no error; it returns, or it panics.\<close>

definition refresh :: "helpers \<Rightarrow> refresh_orders \<Rightarrow> Machines \<Rightarrow> panic + Machines" where
  "refresh H \<pi> ms =
     (let sorted = sortedDataset H (z ms);
          origins = resolveOrigin H sorted ''/'';
          t = triageDatasets (isChild H) (triage_order \<pi>) ms
                (mainDatasets origins sorted @ cloneDatasets origins sorted
                 @ otherDatasets origins sorted) origins;
          flattenedUserDatas = userdatas t;
          rootUserDatasets = getRootDatasets H flattenedUserDatas;
          rootsOnlyUserDatasets = rootsOnly_order \<pi> (map fst rootUserDatasets);
          originsUserDatasets = resolveOrigin H rootsOnlyUserDatasets ''''
      in case userdatasOf originsUserDatasets rootUserDatasets of
           Inl p \<Rightarrow> Inl p
         | Inr ud \<Rightarrow>
             (case attachMachines (machine_order \<pi>) (boots t) (persistents t) ud
                     (sortedMachineKeys (all (machines t))) (machines t) of
                Inl p \<Rightarrow> Inl p
              | Inr ms1 \<Rightarrow>
                  let ms2 = ms1\<lparr>allUsersDatasets :=
                                  allUsersDatasets ms1
                                  @ filter (\<lambda>d. CanMount d \<noteq> ''off'') flattenedUserDatas\<rparr>;
                      ms3 = ms2\<lparr>allSystemDatasets :=
                                  appendIfNotPresent H (allSystemDatasets ms2) (boots t) True\<rparr>;
                      root = bootParametersFromCmdline H (cmdline ms3)
                  in Inr (ms3\<lparr>current := findFromRoot H ms3 root\<rparr>)))"

text \<open>
  \<^verbatim>\<open>Refresh\<close>. The rescan \<^verbatim>\<open>z.Refresh(ctx)\<close> belongs to the zfs package: the
  parameter \<open>zRefresh\<close> gives its error, if any, and the datasets that the handle
  holds afterwards. The new value shares the handle with the receiver. The result is
  the error returned and the receiver after the call.
\<close>

definition Refresh ::
  "(Zfs \<Rightarrow> 'e option \<times> Zfs) \<Rightarrow> helpers \<Rightarrow> refresh_orders \<Rightarrow> Machines \<Rightarrow>
   panic + ('e option \<times> Machines)"
where
  "Refresh zRefresh H \<pi> ms =
     (let newMachines = \<lparr>all = fmempty, cmdline = cmdline ms, current = None,
                         nextState = None, allSystemDatasets = [], allUsersDatasets = [],
                         z = z ms\<rparr>;
          (err, z') = zRefresh (z newMachines)
      in case err of
           Some e \<Rightarrow> Inr (Some e, ms\<lparr>z := z'\<rparr>)
         | None \<Rightarrow>
             (case refresh H \<pi> (newMachines\<lparr>z := z'\<rparr>) of
                Inl p \<Rightarrow> Inl p
              | Inr newMachines' \<Rightarrow> Inr (None, newMachines')))"

subsection \<open>Example inventories\<close>

text \<open>
  A mounted volume with \<^verbatim>\<open>canmount=on\<close>, and the stand-ins used where a theorem is
  applied to a concrete inventory: helpers as a test would supply them, and the orders
  in which the run time leaves the keys as they are.
\<close>

definition volume :: "string \<Rightarrow> string \<Rightarrow> string \<Rightarrow> int \<Rightarrow> Dataset" where
  "volume n mp tag lu =
     \<lparr>Name = n, Mountpoint = mp, CanMount = ''on'', IsSnapshot = False, BootFS = True,
      BootfsDatasets = tag, LastUsed = lu, Origin = ''''\<rparr>"

definition ex_helpers :: helpers where
  "ex_helpers =
     \<lparr>sortedDataset = (\<lambda>ds. ds),
      resolveOrigin = (\<lambda>ds mp. fmap_of_list
         (map (\<lambda>d. (Name d, Origin d)) (filter (\<lambda>d. mp = '''' \<or> Mountpoint d = mp) ds))),
      isChild = (\<lambda>name d. Some (HasPrefix (Name d) (name @ ''/''))),
      getRootDatasets = (\<lambda>ds. map (\<lambda>d. (d, [])) ds),
      appendIfNotPresent = (\<lambda>xs ys b. xs @ filter (\<lambda>y. y \<notin> set xs) ys),
      bootParametersFromCmdline = (\<lambda>c. c),
      findFromRoot = (\<lambda>ms root. fmlookup (all ms) root)\<rparr>"

definition ex_history_orders :: history_orders where
  "ex_history_orders = \<lparr>h_users_order = (\<lambda>ks. ks), h_states_order = (\<lambda>user ks. ks)\<rparr>"

definition ex_machine_orders :: machine_orders where
  "ex_machine_orders =
     \<lparr>roots_order = (\<lambda>ks. ks), userdatas_order = (\<lambda>ks. ks), users_order = (\<lambda>ks. ks),
      histories_orders = (\<lambda>k. ex_history_orders)\<rparr>"

definition ex_triage_orders :: triage_orders where
  "ex_triage_orders = \<lparr>machines_order = (\<lambda>ks. ks), history_order = (\<lambda>k ks. ks)\<rparr>"

definition ex_orders :: refresh_orders where
  "ex_orders =
     \<lparr>triage_order = (\<lambda>i. ex_triage_orders), rootsOnly_order = (\<lambda>ks. ks),
      machine_order = (\<lambda>k. ex_machine_orders)\<rparr>"

definition ex_machines :: "Zfs \<Rightarrow> Machines" where
  "ex_machines ds =
     \<lparr>all = fmempty, cmdline = ''root=ZFS=rpool/ROOT/u1'', current = None, nextState = None,
      allSystemDatasets = [], allUsersDatasets = [], z = ds\<rparr>"

definition ex_inventory :: "Dataset list" where
  "ex_inventory =
     [volume ''rpool/ROOT/u1'' ''/'' '''' 0,
      volume ''rpool/USERDATA/alice_a'' ''/home/alice'' ''rpool/ROOT/u1'' 100,
      (volume ''rpool/USERDATA/carol_c'' ''/home/carol'' ''rpool/ROOT/u1'' 100)\<lparr>CanMount := ''off''\<rparr>]"





definition ex_root :: Dataset where
  "ex_root = volume ''rpool/ROOT/u1'' ''/'' '''' 100"

definition ex_clone :: Dataset where
  "ex_clone = (volume ''rpool/ROOT/u2'' ''/'' '''' 0)\<lparr>Origin := ''rpool/ROOT/u1@s1''\<rparr>"

definition ex_origins :: "(string, string) fmap" where
  "ex_origins = fmap_of_list [(''rpool/ROOT/u1'', ''''), (''rpool/ROOT/u2'', ''rpool/ROOT/u1'')]"

definition ex_triage :: triage where
  "ex_triage = triageDatasets (isChild ex_helpers) (\<lambda>i. ex_triage_orders) (ex_machines [])
                 [ex_root, ex_clone] ex_origins"

definition ex_boot_u1 :: Dataset where
  "ex_boot_u1 = volume ''bpool/BOOT/u1'' ''/boot'' '''' 0"

definition ex_boot_u2 :: Dataset where
  "ex_boot_u2 = volume ''bpool/BOOT/u2'' ''/boot'' '''' 0"

definition ex_boot_u1_s1 :: Dataset where
  "ex_boot_u1_s1 = (volume ''bpool/BOOT/u1@s1'' ''/boot'' '''' 0)\<lparr>IsSnapshot := True\<rparr>"

subsection \<open>Predicates used in the statements and proofs\<close>

text \<open>The test of \<^verbatim>\<open>newMachineFromDataset\<close>, and the test of
  \<^verbatim>\<open>attachSystemAndHistory\<close> for a clone or snapshot of the root of machine \<open>k\<close>.\<close>

definition isMainRoot :: "(string, string) fmap \<Rightarrow> Dataset \<Rightarrow> bool" where
  "isMainRoot origins d \<longleftrightarrow>
     Mountpoint d = ''/'' \<and> CanMount d \<noteq> ''off'' \<and> fmlookup origins (Name d) = Some ''''"

definition isHistoryRoot :: "(string, string) fmap \<Rightarrow> string \<Rightarrow> Dataset \<Rightarrow> bool" where
  "isHistoryRoot origins k d \<longleftrightarrow>
     Mountpoint d = ''/'' \<and> CanMount d \<noteq> ''off'' \<and> fmlookup origins (Name d) = Some k"

text \<open>The state \<open>s\<close> (of a machine or of its history) was created from the dataset \<open>d\<close>:
  it has the name, the flag and the time of \<open>d\<close>, and \<open>d\<close> is its first system
  dataset.\<close>

definition stateFrom :: "Dataset \<Rightarrow> 'a State_scheme \<Rightarrow> bool" where
  "stateFrom d s \<longleftrightarrow>
     ID s = Name d \<and> IsZsys s = BootFS d
     \<and> StateLastUsed s = (if LastUsed d = 0 then None else Some (Unix (LastUsed d) 0))
     \<and> (\<exists>rest. SystemDatasets s = d # rest)"

text \<open>What \<^verbatim>\<open>attachSystemAndHistory\<close> does to the machine \<open>m\<close> that takes the dataset
  \<open>d\<close>: a child of the root, a new history state, or a child of a history state.\<close>

definition attached :: "isChild \<Rightarrow> Dataset \<Rightarrow> string option \<Rightarrow> Machine \<Rightarrow> Machine \<Rightarrow> bool" where
  "attached ic d orig m m' \<longleftrightarrow>
     (ic (ID m) d = Some True \<and> m' = m\<lparr>SystemDatasets := SystemDatasets m @ [d]\<rparr>)
     \<or> (ic (ID m) d \<noteq> Some True \<and> Mountpoint d = ''/'' \<and> CanMount d \<noteq> ''off''
         \<and> orig = Some (ID m)
         \<and> m' = m\<lparr>History := fmupd (Name d) (historyState d) (History m)\<rparr>)
     \<or> (\<exists>hk h. fmlookup (History m) hk = Some h \<and> ic (ID h) d = Some True
           \<and> m' = m\<lparr>History :=
                       fmupd hk (h\<lparr>SystemDatasets := SystemDatasets h @ [d]\<rparr>) (History m)\<rparr>)"

text \<open>The invariant of the triage loop over the datasets \<open>D\<close> seen so far: every machine
  was created from a main root of that name, and every history state from a clone or
  snapshot of that root.\<close>

definition triage_inv :: "(string, string) fmap \<Rightarrow> Dataset set \<Rightarrow> (string, Machine) fmap \<Rightarrow> bool" where
  "triage_inv origins D ms \<longleftrightarrow>
     (\<forall>k m. fmlookup ms k = Some m \<longrightarrow>
        (\<exists>d\<in>D. Name d = k \<and> isMainRoot origins d \<and> stateFrom d m)
        \<and> (\<forall>n h. fmlookup (History m) n = Some h \<longrightarrow>
              (\<exists>d\<in>D. Name d = n \<and> isHistoryRoot origins k d \<and> stateFrom d h)))"

text \<open>In the name of a ZFS dataset no \<open>/\<close> follows an \<open>@\<close>: the name of a snapshot is
  the name of a file system, an \<open>@\<close> and a tag without \<open>/\<close>.\<close>

definition noSlashAfterAt :: "string \<Rightarrow> bool" where
  "noSlashAfterAt n \<longleftrightarrow> CHR ''/'' \<notin> set (dropWhile (\<lambda>c. c \<noteq> CHR ''@'') n)"

section \<open>Lemmas\<close>

subsection \<open>Strings, loops and orders\<close>

lemma Split_not_Nil [simp]: "Split s c \<noteq> []"
  by (induction s) (auto split: list.splits)

lemma HasPrefix_prefix: "HasPrefix s p \<longleftrightarrow> prefix p s"
  unfolding HasPrefix_def prefix_def
  by (metis append_eq_conv_conj append_take_drop_id length_append le_add1)

lemma HasSuffix_suffix: "HasSuffix s t \<longleftrightarrow> suffix t s"
proof
  assume "HasSuffix s t"
  then have "s = take (length s - length t) s @ t"
    unfolding HasSuffix_def by (metis append_take_drop_id)
  then show "suffix t s" unfolding suffix_def by blast
next
  assume "suffix t s"
  then obtain u where "s = u @ t" unfolding suffix_def by blast
  then show "HasSuffix s t" unfolding HasSuffix_def by simp
qed

lemma Contains_sublist: "Contains s t \<longleftrightarrow> sublist t s"
  by (induction s) (auto simp: HasPrefix_prefix sublist_Cons_right)

lemma fold_flag:
  "fold (\<lambda>b v. if P b then True else v) xs v0 \<longleftrightarrow> v0 \<or> (\<exists>b\<in>set xs. P b)"
  by (induction xs arbitrary: v0) auto




lemma relative_iff:
  "relative ud roots r dprop \<longleftrightarrow>
     (\<exists>u\<in>set roots.
        r = u
        \<or> (origin dprop \<noteq> '''' \<and> origin dprop = originOf ud u)
        \<or> (originOf ud u = '''' \<and> origin dprop = Name u)
        \<or> (origin dprop = '''' \<and> originOf ud u = Name r))"
  unfolding relative_def Let_def fold_flag by simp

lemma LastIndex_from_absent: "c \<notin> set s \<Longrightarrow> LastIndex_from i s c f = f"
  by (induction s arbitrary: i f) auto

lemma LastIndex_from_last:
  "c \<notin> set post \<Longrightarrow> LastIndex_from i (pre @ c # post) c f = i + int (length pre)"
  by (induction pre arbitrary: i f) (auto simp: LastIndex_from_absent)

lemma snapshotOf_tag:
  "CHR ''@'' \<notin> set snap \<Longrightarrow>
   snapshotOf (base @ CHR ''@'' # snap) = (if base = [] then '''' else snap)"
  unfolding snapshotOf_def LastIndex_def Let_def
  by (simp add: LastIndex_from_last nat_add_distrib)

lemma snapshotOf_none: "CHR ''@'' \<notin> set seg \<Longrightarrow> snapshotOf seg = ''''"
  unfolding snapshotOf_def LastIndex_def Let_def
  by (simp add: LastIndex_from_absent)

lemma historyBoots_snapshot:
  assumes "last (Split ident CHR ''/'') = base @ CHR ''@'' # snap"
    and "base \<noteq> []" and "snap \<noteq> []" and "CHR ''@'' \<notin> set snap"
  shows "historyBoots ident bs =
           filter (\<lambda>d. HasSuffix (Name d) (CHR ''@'' # snap)
                        \<or> Contains (Name d) (''/'' @ last (Split ident CHR ''/'') @ ''/'')) bs"
proof -
  have s: "snapshotOf (last (Split ident CHR ''/'')) = snap"
    using assms by (simp add: snapshotOf_tag)
  have imp: "HasSuffix n (last (Split ident CHR ''/'')) \<Longrightarrow> HasSuffix n (CHR ''@'' # snap)" for n
    unfolding HasSuffix_suffix assms(1)
    by (metis append_Cons append_Nil suffix_append suffix_order.order_refl suffix_order.trans suffixI)
  show ?thesis
    unfolding historyBoots_def Let_def s using assms(3) imp
    by (intro filter_cong) auto
qed

lemma historyBoots_clone:
  assumes "CHR ''@'' \<notin> set (last (Split ident CHR ''/''))"
  shows "historyBoots ident bs =
           filter (\<lambda>d. HasSuffix (Name d) (last (Split ident CHR ''/''))
                        \<or> Contains (Name d) (''/'' @ last (Split ident CHR ''/'') @ ''/'')) bs"
  unfolding historyBoots_def Let_def using assms by (simp add: snapshotOf_none)

lemma volume_simps [simp]:
  "Name (volume n mp tag lu) = n"
  "Mountpoint (volume n mp tag lu) = mp"
  "CanMount (volume n mp tag lu) = ''on''"
  "IsSnapshot (volume n mp tag lu) = False"
  "BootFS (volume n mp tag lu) = True"
  "BootfsDatasets (volume n mp tag lu) = tag"
  "LastUsed (volume n mp tag lu) = lu"
  "Origin (volume n mp tag lu) = ''''"
  by (simp_all add: volume_def)

lemma volume_eq [simp]:
  "volume n mp tag lu = volume n' mp' tag' lu' \<longleftrightarrow> n = n' \<and> mp = mp' \<and> tag = tag' \<and> lu = lu'"
  by (auto simp: volume_def)


lemma is_order_distinct: "is_order \<pi> \<Longrightarrow> distinct (\<pi> ks) = distinct ks"
  unfolding is_order_def by (metis mset_eq_imp_distinct_iff)



lemma is_order_rev: "is_order rev"
  by (simp add: is_order_def)

lemma attachSystemAndHistory_fields:
  "attachSystemAndHistory ic \<pi> ms d orig = (ok, ms') \<Longrightarrow>
   allUsersDatasets ms' = allUsersDatasets ms \<and> allSystemDatasets ms' = allSystemDatasets ms
   \<and> cmdline ms' = cmdline ms \<and> z ms' = z ms"
  unfolding attachSystemAndHistory_def Let_def by (auto split: prod.splits)

lemma triageDataset_fields:
  "allUsersDatasets (machines (triageDataset ic \<pi> origins d t)) = allUsersDatasets (machines t)
   \<and> allSystemDatasets (machines (triageDataset ic \<pi> origins d t)) = allSystemDatasets (machines t)
   \<and> cmdline (machines (triageDataset ic \<pi> origins d t)) = cmdline (machines t)"
  unfolding triageDataset_def Let_def
  by (auto split: option.splits prod.splits dest: attachSystemAndHistory_fields)

lemma triageDatasets_from_fields:
  "allUsersDatasets (machines (triageDatasets_from ic \<pi> origins i ds t)) = allUsersDatasets (machines t)
   \<and> allSystemDatasets (machines (triageDatasets_from ic \<pi> origins i ds t)) = allSystemDatasets (machines t)
   \<and> cmdline (machines (triageDatasets_from ic \<pi> origins i ds t)) = cmdline (machines t)"
  by (induction ds arbitrary: i t) (simp_all add: triageDataset_fields)

lemma attachMachines_allUsersDatasets:
  "attachMachines \<pi> bs ps ud ks ms = Inr ms' \<Longrightarrow> allUsersDatasets ms' = allUsersDatasets ms"
  by (induction ks arbitrary: ms) (auto split: option.splits sum.splits)

lemma dropWhile_after:
  "c \<in> set ys \<Longrightarrow> c \<in> set (dropWhile (\<lambda>x. x \<noteq> a) (xs @ a # ys))"
  by (induction xs) auto

lemma Contains_at_slash:
  "noSlashAfterAt n \<Longrightarrow> \<not> Contains n (''/'' @ (base @ CHR ''@'' # snap) @ ''/'')"
proof
  assume w: "noSlashAfterAt n" and "Contains n (''/'' @ (base @ CHR ''@'' # snap) @ ''/'')"
  then obtain ps ss where "n = ps @ (''/'' @ (base @ CHR ''@'' # snap) @ ''/'') @ ss"
    unfolding Contains_sublist sublist_def by blast
  then have "n = (ps @ ''/'' @ base) @ CHR ''@'' # (snap @ ''/'' @ ss)"
    by simp
  moreover have "CHR ''/'' \<in> set (snap @ ''/'' @ ss)"
    by simp
  ultimately have "CHR ''/'' \<in> set (dropWhile (\<lambda>x. x \<noteq> CHR ''@'') n)"
    using dropWhile_after by metis
  with w show False unfolding noSlashAfterAt_def by simp
qed

subsection \<open>The triage loop\<close>

lemma attachHistoryChild_Some:
  "attachHistoryChild ic d hist ks = Some hist' \<Longrightarrow>
   \<exists>k h. fmlookup hist k = Some h \<and> ic (ID h) d = Some True
         \<and> hist' = fmupd k (h\<lparr>SystemDatasets := SystemDatasets h @ [d]\<rparr>) hist"
  by (induction ks) (auto split: option.splits if_splits)


lemma attachSystemAndHistory_range_cases:
  "attachSystemAndHistory_range ic \<pi> d orig ms ks = (ok, ms') \<Longrightarrow>
   (\<not> ok \<and> ms' = ms)
   \<or> (ok \<and> (\<exists>k m m'. k \<in> set ks \<and> fmlookup ms k = Some m \<and> attached ic d orig m m'
                 \<and> ms' = fmupd k m' ms))"
proof (induction ks)
  case Nil
  then show ?case by simp
next
  case (Cons k ks)
  show ?case
  proof (cases "fmlookup ms k")
    case None
    with Cons show ?thesis by auto
  next
    case (Some m)
    show ?thesis
    proof (cases "ic (ID m) d = Some True")
      case True
      with Some Cons.prems show ?thesis
        by (auto simp: attached_def)
    next
      case nc: False
      show ?thesis
      proof (cases "Mountpoint d = ''/'' \<and> CanMount d \<noteq> ''off'' \<and> orig = Some (ID m)")
        case True
        with Some nc Cons.prems
        have "ok" and "ms' = fmupd k (m\<lparr>History := fmupd (Name d) (historyState d) (History m)\<rparr>) ms"
          by auto
        moreover have "attached ic d orig m (m\<lparr>History := fmupd (Name d) (historyState d) (History m)\<rparr>)"
          using nc True unfolding attached_def by blast
        ultimately show ?thesis using Some by auto
      next
        case nh: False
        show ?thesis
        proof (cases "attachHistoryChild ic d (History m) (history_order \<pi> k (keys (History m)))")
          case None
          with Some nc nh Cons.prems
          have "attachSystemAndHistory_range ic \<pi> d orig ms ks = (ok, ms')"
            by auto
          from Cons.IH[OF this] show ?thesis by auto
        next
          case (Some hist)
          from attachHistoryChild_Some[OF Some] obtain hk h where
            h: "fmlookup (History m) hk = Some h" "ic (ID h) d = Some True"
               "hist = fmupd hk (h\<lparr>SystemDatasets := SystemDatasets h @ [d]\<rparr>) (History m)"
            by blast
          have "attached ic d orig m (m\<lparr>History := hist\<rparr>)"
            unfolding attached_def using h by blast
          moreover have "ok" "ms' = fmupd k (m\<lparr>History := hist\<rparr>) ms"
            using Some \<open>fmlookup ms k = Some m\<close> nc nh Cons.prems by auto
          ultimately show ?thesis using \<open>fmlookup ms k = Some m\<close> by auto
        qed
      qed
    qed
  qed
qed

lemma triageDataset_all:
  "all (machines (triageDataset ic \<pi> origins d t)) =
     (case newMachineFromDataset d (fmlookup origins (Name d)) of
        Some m \<Rightarrow> fmupd (Name d) m (all (machines t))
      | None \<Rightarrow> snd (attachSystemAndHistory_range ic \<pi> d (fmlookup origins (Name d))
                       (all (machines t)) (machines_order \<pi> (keys (all (machines t))))))"
  unfolding triageDataset_def attachSystemAndHistory_def Let_def
  by (auto split: option.splits prod.splits)

lemma newMachineFromDataset_Some:
  "newMachineFromDataset d orig = Some m \<longleftrightarrow>
     Mountpoint d = ''/'' \<and> CanMount d \<noteq> ''off'' \<and> orig = Some ''''
     \<and> m = \<lparr>ID = Name d, IsZsys = BootFS d,
             StateLastUsed = (if LastUsed d = 0 then None else Some (Unix (LastUsed d) 0)),
             SystemDatasets = [d], UserDatasets = [], PersistentDatasets = [],
             Users = Some fmempty, History = fmempty\<rparr>"
  unfolding newMachineFromDataset_def Let_def by auto

lemma newMachineFromDataset_None:
  "newMachineFromDataset d orig = None \<longleftrightarrow>
     \<not> (Mountpoint d = ''/'' \<and> CanMount d \<noteq> ''off'' \<and> orig = Some '''')"
  unfolding newMachineFromDataset_def Let_def by auto

lemma stateFrom_historyState: "stateFrom d (historyState d)"
  unfolding stateFrom_def historyState_def Let_def by simp

lemma triage_inv_mono: "triage_inv origins D ms \<Longrightarrow> D \<subseteq> D' \<Longrightarrow> triage_inv origins D' ms"
  unfolding triage_inv_def by (meson subsetD)

lemma triage_inv_new:
  assumes "triage_inv origins D ms"
    and "newMachineFromDataset d (fmlookup origins (Name d)) = Some m"
  shows "triage_inv origins (insert d D) (fmupd (Name d) m ms)"
proof -
  from assms(2) have main: "isMainRoot origins d" and sf: "stateFrom d m" and h: "History m = fmempty"
    unfolding newMachineFromDataset_Some isMainRoot_def stateFrom_def by auto
  have inv: "triage_inv origins (insert d D) ms"
    using assms(1) by (rule triage_inv_mono) auto
  show ?thesis
    unfolding triage_inv_def
  proof (intro allI impI)
    fix k m' assume l: "fmlookup (fmupd (Name d) m ms) k = Some m'"
    show "(\<exists>d'\<in>insert d D. Name d' = k \<and> isMainRoot origins d' \<and> stateFrom d' m')
        \<and> (\<forall>n h. fmlookup (History m') n = Some h \<longrightarrow>
              (\<exists>d'\<in>insert d D. Name d' = n \<and> isHistoryRoot origins k d' \<and> stateFrom d' h))"
    proof (cases "k = Name d")
      case True
      with l have "m' = m" by simp
      with True main sf h show ?thesis by auto
    next
      case False
      with l have "fmlookup ms k = Some m'" by simp
      with inv show ?thesis unfolding triage_inv_def by blast
    qed
  qed
qed

lemma triage_inv_attached:
  assumes inv: "triage_inv origins D ms"
    and l: "fmlookup ms k = Some m"
    and a: "attached ic d (fmlookup origins (Name d)) m m'"
  shows "triage_inv origins (insert d D) (fmupd k m' ms)"
proof -
  have inv': "triage_inv origins (insert d D) ms"
    using inv by (rule triage_inv_mono) auto
  from inv' l obtain d0 where d0: "d0 \<in> insert d D" "Name d0 = k" "isMainRoot origins d0" "stateFrom d0 m"
    unfolding triage_inv_def by blast
  have hm: "\<And>n h. fmlookup (History m) n = Some h \<Longrightarrow>
              \<exists>d'\<in>insert d D. Name d' = n \<and> isHistoryRoot origins k d' \<and> stateFrom d' h"
    using inv' l unfolding triage_inv_def by blast
  have idm: "ID m = k" using d0 unfolding stateFrom_def by simp
  have m': "(\<exists>d'\<in>insert d D. Name d' = k \<and> isMainRoot origins d' \<and> stateFrom d' m')
        \<and> (\<forall>n h. fmlookup (History m') n = Some h \<longrightarrow>
              (\<exists>d'\<in>insert d D. Name d' = n \<and> isHistoryRoot origins k d' \<and> stateFrom d' h))"
    using a unfolding attached_def
  proof (elim disjE conjE exE)
    assume "m' = m\<lparr>SystemDatasets := SystemDatasets m @ [d]\<rparr>"
    then have "stateFrom d0 m'" "History m' = History m"
      using d0(4) unfolding stateFrom_def by auto
    then show ?thesis using d0 hm by auto
  next
    assume h: "Mountpoint d = ''/''" "CanMount d \<noteq> ''off''"
      "fmlookup origins (Name d) = Some (ID m)"
      "m' = m\<lparr>History := fmupd (Name d) (historyState d) (History m)\<rparr>"
    then have sf: "stateFrom d0 m'" using d0(4) unfolding stateFrom_def by auto
    have ir: "isHistoryRoot origins k d" using h idm unfolding isHistoryRoot_def by simp
    have "\<And>n hh. fmlookup (History m') n = Some hh \<Longrightarrow>
            \<exists>d'\<in>insert d D. Name d' = n \<and> isHistoryRoot origins k d' \<and> stateFrom d' hh"
    proof -
      fix n hh assume "fmlookup (History m') n = Some hh"
      then have "(n = Name d \<and> hh = historyState d) \<or> fmlookup (History m) n = Some hh"
        using h(4) by (auto split: if_splits)
      then show "\<exists>d'\<in>insert d D. Name d' = n \<and> isHistoryRoot origins k d' \<and> stateFrom d' hh"
        using ir stateFrom_historyState hm by auto
    qed
    then show ?thesis using sf d0 by blast
  next
    fix hk h
    assume h: "fmlookup (History m) hk = Some h"
      "m' = m\<lparr>History := fmupd hk (h\<lparr>SystemDatasets := SystemDatasets h @ [d]\<rparr>) (History m)\<rparr>"
    then have sf: "stateFrom d0 m'" using d0(4) unfolding stateFrom_def by auto
    have "\<And>n hh. fmlookup (History m') n = Some hh \<Longrightarrow>
            \<exists>d'\<in>insert d D. Name d' = n \<and> isHistoryRoot origins k d' \<and> stateFrom d' hh"
    proof -
      fix n hh assume "fmlookup (History m') n = Some hh"
      then have c: "(n = hk \<and> hh = h\<lparr>SystemDatasets := SystemDatasets h @ [d]\<rparr>)
                  \<or> fmlookup (History m) n = Some hh"
        using h(2) by (auto split: if_splits)
      from hm[OF h(1)] obtain d1 where d1: "d1 \<in> insert d D" "Name d1 = hk"
        "isHistoryRoot origins k d1" "stateFrom d1 h" by blast
      then have "stateFrom d1 (h\<lparr>SystemDatasets := SystemDatasets h @ [d]\<rparr>)"
        unfolding stateFrom_def by auto
      with c d1 hm show "\<exists>d'\<in>insert d D. Name d' = n \<and> isHistoryRoot origins k d' \<and> stateFrom d' hh"
        by blast
    qed
    then show ?thesis using sf d0 by blast
  qed
  show ?thesis
    unfolding triage_inv_def
  proof (intro allI impI)
    fix k' m'' assume l': "fmlookup (fmupd k m' ms) k' = Some m''"
    show "(\<exists>d'\<in>insert d D. Name d' = k' \<and> isMainRoot origins d' \<and> stateFrom d' m'')
        \<and> (\<forall>n h. fmlookup (History m'') n = Some h \<longrightarrow>
              (\<exists>d'\<in>insert d D. Name d' = n \<and> isHistoryRoot origins k' d' \<and> stateFrom d' h))"
    proof (cases "k' = k")
      case True
      with l' have "m'' = m'" by simp
      with True m' show ?thesis by simp
    next
      case False
      with l' have "fmlookup ms k' = Some m''" by simp
      with inv' show ?thesis unfolding triage_inv_def by blast
    qed
  qed
qed

lemma triage_inv_step:
  assumes "triage_inv origins D (all (machines t))"
  shows "triage_inv origins (insert d D) (all (machines (triageDataset ic \<pi> origins d t)))"
proof (cases "newMachineFromDataset d (fmlookup origins (Name d))")
  case (Some m)
  then show ?thesis
    unfolding triageDataset_all using triage_inv_new[OF assms Some] by simp
next
  case None
  define res where "res = attachSystemAndHistory_range ic \<pi> d (fmlookup origins (Name d))
     (all (machines t)) (machines_order \<pi> (keys (all (machines t))))"
  obtain ok ms' where r: "res = (ok, ms')"
    by (cases res)
  have weak: "triage_inv origins (insert d D) (all (machines t))"
    using assms by (rule triage_inv_mono) blast
  from attachSystemAndHistory_range_cases[OF r[unfolded res_def]]
  have "triage_inv origins (insert d D) ms'"
  proof (elim disjE conjE exE)
    assume "ms' = all (machines t)"
    then show ?thesis using weak by simp
  next
    fix k m m'
    assume "fmlookup (all (machines t)) k = Some m"
      "attached ic d (fmlookup origins (Name d)) m m'" "ms' = fmupd k m' (all (machines t))"
    then show ?thesis using triage_inv_attached[OF assms] by simp
  qed
  moreover have "all (machines (triageDataset ic \<pi> origins d t)) = ms'"
    unfolding triageDataset_all None using r[unfolded res_def] by simp
  ultimately show ?thesis by simp
qed

lemma triage_inv_from:
  "triage_inv origins D (all (machines t)) \<Longrightarrow>
   triage_inv origins (D \<union> set ds) (all (machines (triageDatasets_from ic \<pi> origins i ds t)))"
proof (induction ds arbitrary: D i t)
  case Nil
  then show ?case by simp
next
  case (Cons d ds)
  have "triage_inv origins (insert d D) (all (machines (triageDataset ic (\<pi> i) origins d t)))"
    using Cons.prems by (rule triage_inv_step)
  from Cons.IH[OF this] show ?case by simp
qed

lemma triage_inv_empty: "triage_inv origins {} fmempty"
  unfolding triage_inv_def by simp

lemma triage_inv_triageDatasets:
  assumes "all ms = fmempty"
  shows "triage_inv origins (set ds) (all (machines (triageDatasets ic \<pi> ms ds origins)))"
proof -
  have "triage_inv origins ({} \<union> set ds)
          (all (machines (triageDatasets_from ic \<pi> origins 0 ds
             \<lparr>machines = ms, boots = [], userdatas = [], persistents = []\<rparr>)))"
    by (rule triage_inv_from) (simp add: assms triage_inv_empty)
  then show ?thesis unfolding triageDatasets_def by simp
qed


lemma keys_distinct: "distinct (keys m)"
  by (simp add: keys_def sorted_list_of_fset.rep_eq)



lemma range_dom:
  "fmdom (snd (attachSystemAndHistory_range ic \<pi> d orig ms ks)) = fmdom ms"
proof -
  obtain ok ms' where r: "attachSystemAndHistory_range ic \<pi> d orig ms ks = (ok, ms')"
    by (cases "attachSystemAndHistory_range ic \<pi> d orig ms ks")
  from attachSystemAndHistory_range_cases[OF r] have "fmdom ms' = fmdom ms"
    by (auto simp: fmdomI)
  with r show ?thesis by simp
qed


lemma step_dom:
  "\<not> isMainRoot origins d \<Longrightarrow>
   fmdom (all (machines (triageDataset ic \<pi> origins d t))) = fmdom (all (machines t))"
  unfolding triageDataset_all isMainRoot_def
  by (cases "newMachineFromDataset d (fmlookup origins (Name d))")
     (simp_all add: range_dom newMachineFromDataset_Some)









lemma step_dom_main:
  "isMainRoot origins d \<Longrightarrow>
   fmdom (all (machines (triageDataset ic \<pi> origins d t))) = finsert (Name d) (fmdom (all (machines t)))"
  unfolding triageDataset_all isMainRoot_def
  by (cases "newMachineFromDataset d (fmlookup origins (Name d))")
     (simp_all add: newMachineFromDataset_None)

lemma from_dom_all:
  "fmdom (all (machines (triageDatasets_from ic \<pi> origins i ds t))) =
     fmdom (all (machines t)) |\<union>| fset_of_list (map Name (filter (isMainRoot origins) ds))"
proof (induction ds arbitrary: i t)
  case Nil
  then show ?case by simp
next
  case (Cons d ds)
  show ?case
  proof (cases "isMainRoot origins d")
    case True
    then show ?thesis using Cons.IH by (simp add: step_dom_main)
  next
    case False
    then show ?thesis using Cons.IH by (simp add: step_dom)
  qed
qed

lemma triage_dom:
  "all ms = fmempty \<Longrightarrow>
   k |\<in>| fmdom (all (machines (triageDatasets ic \<pi> ms ds origins))) \<longleftrightarrow>
     (\<exists>d\<in>set ds. Name d = k \<and> isMainRoot origins d)"
  unfolding triageDatasets_def from_dom_all
  by (auto simp: fset_of_list.rep_eq)


subsection \<open>The example inventories\<close>

lemma ex_root_simps [simp]:
  "Name ex_root = ''rpool/ROOT/u1''" "Mountpoint ex_root = ''/''" "CanMount ex_root = ''on''"
  "LastUsed ex_root = 100" "BootFS ex_root = True"
  by (simp_all add: ex_root_def)

lemma ex_clone_simps [simp]:
  "Name ex_clone = ''rpool/ROOT/u2''" "Mountpoint ex_clone = ''/''" "CanMount ex_clone = ''on''"
  "LastUsed ex_clone = 0" "BootFS ex_clone = True"
  by (simp_all add: ex_clone_def)

lemma ex_origins_simps [simp]:
  "fmlookup ex_origins ''rpool/ROOT/u1'' = Some ''''"
  "fmlookup ex_origins ''rpool/ROOT/u2'' = Some ''rpool/ROOT/u1''"
  by (simp_all add: ex_origins_def fmlookup_of_list)

lemma ex_machines_all [simp]: "all (ex_machines ds) = fmempty"
  by (simp add: ex_machines_def)


lemma ex_triage_dom:
  "k |\<in>| fmdom (all (machines ex_triage)) \<longleftrightarrow> k = ''rpool/ROOT/u1''"
  unfolding ex_triage_def
  by (subst triage_dom) (auto simp: isMainRoot_def)

lemma ex_triage_history:
  "(case fmlookup (all (machines ex_triage)) ''rpool/ROOT/u1'' of
      None \<Rightarrow> False
    | Some mk \<Rightarrow> ''rpool/ROOT/u2'' |\<in>| fmdom (History mk))"
  unfolding ex_triage_def by code_simp

section \<open>The claims\<close>

subsection \<open>C2: a new machine for every main root\<close>

text \<open>
  Claim C2. \<^verbatim>\<open>newMachineFromDataset\<close> returns a machine for the dataset \<open>d\<close> if and only
  if \<open>d.Mountpoint\<close> is \<^verbatim>\<open>"/"\<close>, \<open>d.CanMount\<close> is not \<^verbatim>\<open>"off"\<close> and the resolved
  origin of \<open>d\<close> is the empty string. The machine has \<open>ID = d.Name\<close>,
  \<open>SystemDatasets = [d]\<close>, \<open>IsZsys = d.BootFS\<close>, and a \<open>LastUsed\<close> time if and only if
  \<open>d.LastUsed\<close> is not zero. The turn of the triage loop for \<open>d\<close> stores it under the key
  \<open>d.Name\<close>, and a turn for a dataset that fails the test leaves the keys of
  \<open>machines.all\<close> as they are. So after the triage of a fresh value, the keys of
  \<open>machines.all\<close> are exactly the names of the datasets that pass the test.
\<close>

theorem C2_new_machine:
  "(newMachineFromDataset d orig \<noteq> None \<longleftrightarrow>
      Mountpoint d = ''/'' \<and> CanMount d \<noteq> ''off'' \<and> orig = Some '''')
   \<and> (newMachineFromDataset d orig = Some m \<longrightarrow>
        ID m = Name d \<and> SystemDatasets m = [d] \<and> IsZsys m = BootFS d
        \<and> (StateLastUsed m \<noteq> None \<longleftrightarrow> LastUsed d \<noteq> 0))
   \<and> (newMachineFromDataset d (fmlookup origins (Name d)) = Some m \<longrightarrow>
        all (machines (triageDataset ic \<pi> origins d t)) = fmupd (Name d) m (all (machines t)))
   \<and> (newMachineFromDataset d (fmlookup origins (Name d)) = None \<longrightarrow>
        fmdom (all (machines (triageDataset ic \<pi> origins d t))) = fmdom (all (machines t)))
   \<and> (all ms = fmempty \<longrightarrow>
        (k |\<in>| fmdom (all (machines (triageDatasets ic \<pi>' ms ds origins))) \<longleftrightarrow>
           (\<exists>d\<in>set ds. Name d = k \<and> Mountpoint d = ''/'' \<and> CanMount d \<noteq> ''off''
                        \<and> fmlookup origins k = Some '''')))"
proof -
  have 1: "newMachineFromDataset d orig \<noteq> None \<longleftrightarrow>
      Mountpoint d = ''/'' \<and> CanMount d \<noteq> ''off'' \<and> orig = Some ''''"
    by (simp add: newMachineFromDataset_None)
  have 2: "newMachineFromDataset d orig = Some m \<longrightarrow>
        ID m = Name d \<and> SystemDatasets m = [d] \<and> IsZsys m = BootFS d
        \<and> (StateLastUsed m \<noteq> None \<longleftrightarrow> LastUsed d \<noteq> 0)"
    by (auto simp: newMachineFromDataset_Some)
  have 3: "newMachineFromDataset d (fmlookup origins (Name d)) = Some m \<longrightarrow>
        all (machines (triageDataset ic \<pi> origins d t)) = fmupd (Name d) m (all (machines t))"
    unfolding triageDataset_all by simp
  have 4: "newMachineFromDataset d (fmlookup origins (Name d)) = None \<longrightarrow>
        fmdom (all (machines (triageDataset ic \<pi> origins d t))) = fmdom (all (machines t))"
    unfolding triageDataset_all by (simp add: range_dom)
  have 5: "all ms = fmempty \<longrightarrow>
        (k |\<in>| fmdom (all (machines (triageDatasets ic \<pi>' ms ds origins))) \<longleftrightarrow>
           (\<exists>d\<in>set ds. Name d = k \<and> Mountpoint d = ''/'' \<and> CanMount d \<noteq> ''off''
                        \<and> fmlookup origins k = Some ''''))"
  proof
    assume "all ms = fmempty"
    from triage_dom[OF this]
    show "k |\<in>| fmdom (all (machines (triageDatasets ic \<pi>' ms ds origins))) \<longleftrightarrow>
           (\<exists>d\<in>set ds. Name d = k \<and> Mountpoint d = ''/'' \<and> CanMount d \<noteq> ''off''
                        \<and> fmlookup origins k = Some '''')"
      unfolding isMainRoot_def by auto
  qed
  show ?thesis by (intro conjI 1 2 3 4 5)
qed

text \<open>The theorem of C2 at the main root \<^verbatim>\<open>rpool/ROOT/u1\<close> and at its clone
  \<^verbatim>\<open>rpool/ROOT/u2\<close>, for which no machine is created.\<close>

theorem C2_new_machine_witness:
  "(\<exists>m. newMachineFromDataset ex_root (fmlookup ex_origins (Name ex_root)) = Some m
        \<and> ID m = ''rpool/ROOT/u1'' \<and> SystemDatasets m = [ex_root] \<and> IsZsys m
        \<and> StateLastUsed m \<noteq> None
        \<and> all (machines (triageDataset (isChild ex_helpers) ex_triage_orders ex_origins ex_root
                  \<lparr>machines = ex_machines [], boots = [], userdatas = [], persistents = []\<rparr>))
            = fmupd ''rpool/ROOT/u1'' m fmempty)
   \<and> newMachineFromDataset ex_clone (fmlookup ex_origins (Name ex_clone)) = None
   \<and> fmdom (all (machines (triageDataset (isChild ex_helpers) ex_triage_orders ex_origins ex_clone
                  \<lparr>machines = ex_machines [], boots = [], userdatas = [], persistents = []\<rparr>)))
       = {||}
   \<and> ''rpool/ROOT/u1'' |\<in>| fmdom (all (machines ex_triage))"
proof -
  let ?t = "\<lparr>machines = ex_machines [], boots = [], userdatas = [], persistents = []\<rparr>"
  have c: "Mountpoint ex_root = ''/'' \<and> CanMount ex_root \<noteq> ''off''
           \<and> fmlookup ex_origins (Name ex_root) = Some ''''"
    by simp
  from C2_new_machine[where d = ex_root and orig = "fmlookup ex_origins (Name ex_root)"] c
  obtain m where m: "newMachineFromDataset ex_root (fmlookup ex_origins (Name ex_root)) = Some m"
    by blast
  from C2_new_machine[where d = ex_root and orig = "fmlookup ex_origins (Name ex_root)"
      and m = m and origins = ex_origins and ic = "isChild ex_helpers" and \<pi> = ex_triage_orders
      and t = ?t] m
  have p: "ID m = Name ex_root \<and> SystemDatasets m = [ex_root] \<and> IsZsys m = BootFS ex_root
        \<and> (StateLastUsed m \<noteq> None \<longleftrightarrow> LastUsed ex_root \<noteq> 0)"
    and q: "all (machines (triageDataset (isChild ex_helpers) ex_triage_orders ex_origins ex_root ?t))
              = fmupd (Name ex_root) m (all (machines ?t))"
    by blast+
  have n: "newMachineFromDataset ex_clone (fmlookup ex_origins (Name ex_clone)) = None"
    using C2_new_machine[where d = ex_clone and orig = "fmlookup ex_origins (Name ex_clone)"]
    by simp
  from C2_new_machine[where d = ex_clone and origins = ex_origins and ic = "isChild ex_helpers"
      and \<pi> = ex_triage_orders and t = ?t] n
  have r: "fmdom (all (machines (triageDataset (isChild ex_helpers) ex_triage_orders ex_origins
             ex_clone ?t))) = fmdom (all (machines ?t))"
    by blast
  have e: "all (ex_machines []) = fmempty" by simp
  have x: "\<exists>d\<in>set [ex_root, ex_clone]. Name d = ''rpool/ROOT/u1'' \<and> Mountpoint d = ''/''
             \<and> CanMount d \<noteq> ''off'' \<and> fmlookup ex_origins ''rpool/ROOT/u1'' = Some ''''"
    by simp
  from C2_new_machine[where ms = "ex_machines []" and ds = "[ex_root, ex_clone]"
      and origins = ex_origins and k = "''rpool/ROOT/u1''" and \<pi>' = "\<lambda>i. ex_triage_orders"
      and ic = "isChild ex_helpers"] e x
  have g: "''rpool/ROOT/u1'' |\<in>| fmdom (all (machines ex_triage))"
    unfolding ex_triage_def by blast
  show ?thesis using m p q n r g by simp
qed

subsection \<open>C3: the history states of a machine\<close>



subsection \<open>C4: the boot datasets of a history state\<close>

text \<open>
  Claim C4. Let \<open>seg\<close> be the last segment of the id of a history state, and let the
  names of the boot datasets be names of ZFS datasets: no \<open>/\<close> follows an \<open>@\<close>. If
  \<open>seg\<close> is \<open>base@snap\<close>, with \<open>base\<close> and \<open>snap\<close> not empty and no \<open>@\<close> in \<open>snap\<close>,
  the boot datasets appended to \<open>SystemDatasets\<close> are exactly the boots whose name ends
  with \<open>@snap\<close>, in the order of the boots. If \<open>seg\<close> has no \<open>@\<close>, they are exactly the
  boots whose name ends with \<open>seg\<close> or contains \<open>/seg/\<close>.
  \<^verbatim>\<open>attachRemainingDatasetsForHistory\<close> appends these datasets to the system datasets of
  the state.
\<close>

theorem C4_history_boots:
  "(last (Split ident CHR ''/'') = base @ CHR ''@'' # snap \<and> base \<noteq> [] \<and> snap \<noteq> []
      \<and> CHR ''@'' \<notin> set snap \<and> (\<forall>d\<in>set bs. noSlashAfterAt (Name d)) \<longrightarrow>
      historyBoots ident bs = filter (\<lambda>d. HasSuffix (Name d) (CHR ''@'' # snap)) bs)
   \<and> (CHR ''@'' \<notin> set (last (Split ident CHR ''/'')) \<longrightarrow>
      historyBoots ident bs =
        filter (\<lambda>d. HasSuffix (Name d) (last (Split ident CHR ''/''))
                     \<or> Contains (Name d) (''/'' @ last (Split ident CHR ''/'') @ ''/'')) bs)
   \<and> (attachRemainingDatasetsForHistory \<pi> h bs ps us = Inr h' \<longrightarrow>
      SystemDatasets h' = SystemDatasets h @ historyBoots (ID h) bs)"
proof -
  have 1: "last (Split ident CHR ''/'') = base @ CHR ''@'' # snap \<and> base \<noteq> [] \<and> snap \<noteq> []
      \<and> CHR ''@'' \<notin> set snap \<and> (\<forall>d\<in>set bs. noSlashAfterAt (Name d)) \<longrightarrow>
      historyBoots ident bs = filter (\<lambda>d. HasSuffix (Name d) (CHR ''@'' # snap)) bs"
  proof
    assume a: "last (Split ident CHR ''/'') = base @ CHR ''@'' # snap \<and> base \<noteq> []
      \<and> snap \<noteq> [] \<and> CHR ''@'' \<notin> set snap \<and> (\<forall>d\<in>set bs. noSlashAfterAt (Name d))"
    then have "historyBoots ident bs =
        filter (\<lambda>d. HasSuffix (Name d) (CHR ''@'' # snap)
                     \<or> Contains (Name d) (''/'' @ last (Split ident CHR ''/'') @ ''/'')) bs"
      using historyBoots_snapshot by blast
    also have "\<dots> = filter (\<lambda>d. HasSuffix (Name d) (CHR ''@'' # snap)) bs"
    proof (rule filter_cong[OF refl])
      fix d assume "d \<in> set bs"
      with a have "noSlashAfterAt (Name d)" by blast
      then have "\<not> Contains (Name d) (''/'' @ (base @ CHR ''@'' # snap) @ ''/'')"
        using Contains_at_slash by blast
      with a show "(HasSuffix (Name d) (CHR ''@'' # snap)
                     \<or> Contains (Name d) (''/'' @ last (Split ident CHR ''/'') @ ''/''))
                 = HasSuffix (Name d) (CHR ''@'' # snap)"
        by simp
    qed
    finally show "historyBoots ident bs = filter (\<lambda>d. HasSuffix (Name d) (CHR ''@'' # snap)) bs" .
  qed
  have 2: "CHR ''@'' \<notin> set (last (Split ident CHR ''/'')) \<longrightarrow>
      historyBoots ident bs =
        filter (\<lambda>d. HasSuffix (Name d) (last (Split ident CHR ''/''))
                     \<or> Contains (Name d) (''/'' @ last (Split ident CHR ''/'') @ ''/'')) bs"
    using historyBoots_clone by blast
  have 3: "attachRemainingDatasetsForHistory \<pi> h bs ps us = Inr h' \<longrightarrow>
      SystemDatasets h' = SystemDatasets h @ historyBoots (ID h) bs"
    unfolding attachRemainingDatasetsForHistory_def Let_def
    by (auto split: sum.splits)
  show ?thesis by (intro conjI 1 2 3)
qed

text \<open>
  The theorem of C4 at a snapshot state \<^verbatim>\<open>rpool/ROOT/u1@s1\<close>, at a clone state
  \<^verbatim>\<open>rpool/ROOT/u2\<close>, and at the attachment of the boots of that clone.
\<close>

theorem C4_history_boots_witness:
  "historyBoots ''rpool/ROOT/u1@s1'' [ex_boot_u1_s1, ex_boot_u1] = [ex_boot_u1_s1]
   \<and> historyBoots ''rpool/ROOT/u2'' [ex_boot_u2, ex_boot_u1] = [ex_boot_u2]
   \<and> (\<exists>h'. attachRemainingDatasetsForHistory ex_history_orders
              (historyState (volume ''rpool/ROOT/u2'' ''/'' '''' 0)) [ex_boot_u2] [] None = Inr h'
            \<and> SystemDatasets h' = [volume ''rpool/ROOT/u2'' ''/'' '''' 0, ex_boot_u2])"
proof -
  let ?h = "historyState (volume ''rpool/ROOT/u2'' ''/'' '''' 0)"
  have a: "last (Split ''rpool/ROOT/u1@s1'' CHR ''/'') = ''u1'' @ CHR ''@'' # ''s1''
           \<and> ''u1'' \<noteq> [] \<and> ''s1'' \<noteq> [] \<and> CHR ''@'' \<notin> set ''s1''
           \<and> (\<forall>d\<in>set [ex_boot_u1_s1, ex_boot_u1]. noSlashAfterAt (Name d))"
    by (simp add: noSlashAfterAt_def ex_boot_u1_s1_def ex_boot_u1_def)
  have b: "CHR ''@'' \<notin> set (last (Split ''rpool/ROOT/u2'' CHR ''/''))"
    by simp
  have idh: "ID ?h = ''rpool/ROOT/u2''"
    by (simp add: historyState_def)
  have sdh: "SystemDatasets ?h = [volume ''rpool/ROOT/u2'' ''/'' '''' 0]"
    by (simp add: historyState_def)
  obtain h' where c: "attachRemainingDatasetsForHistory ex_history_orders ?h
              [ex_boot_u2] [] None = Inr h'"
    by (simp add: attachRemainingDatasetsForHistory_def Let_def)
  have r1: "historyBoots ''rpool/ROOT/u1@s1'' [ex_boot_u1_s1, ex_boot_u1] = [ex_boot_u1_s1]"
    using C4_history_boots[where ident = "''rpool/ROOT/u1@s1''" and base = "''u1''"
        and snap = "''s1''" and bs = "[ex_boot_u1_s1, ex_boot_u1]"] a
    by (simp add: HasSuffix_def ex_boot_u1_s1_def ex_boot_u1_def)
  have r2: "historyBoots ''rpool/ROOT/u2'' [ex_boot_u2, ex_boot_u1] = [ex_boot_u2]"
    using C4_history_boots[where ident = "''rpool/ROOT/u2''" and bs = "[ex_boot_u2, ex_boot_u1]"] b
    by (simp add: HasSuffix_def HasPrefix_def ex_boot_u2_def ex_boot_u1_def)
  have r2': "historyBoots ''rpool/ROOT/u2'' [ex_boot_u2] = [ex_boot_u2]"
    using C4_history_boots[where ident = "''rpool/ROOT/u2''" and bs = "[ex_boot_u2]"] b
    by (simp add: HasSuffix_def HasPrefix_def ex_boot_u2_def)
  have r3: "SystemDatasets h' = [volume ''rpool/ROOT/u2'' ''/'' '''' 0, ex_boot_u2]"
    using C4_history_boots[where h = ?h and h' = h' and \<pi> = ex_history_orders
        and bs = "[ex_boot_u2]" and ps = "[]" and us = None] c
    by (simp add: idh sdh r2')
  show ?thesis using r1 r2 r3 c by blast
qed

subsection \<open>C5: the tag \<^verbatim>\<open>BootfsDatasets\<close>\<close>



subsection \<open>C7: \<^verbatim>\<open>Refresh\<close> keeps the receiver when it fails\<close>

text \<open>
  Claim C7. If \<^verbatim>\<open>Refresh\<close> returns an error, the fields \<open>all\<close>, \<open>cmdline\<close>,
  \<open>current\<close>, \<open>nextState\<close>, \<open>allSystemDatasets\<close> and \<open>allUsersDatasets\<close> of the
  receiver are what they were. If it returns no error, the rescan succeeded and the
  receiver is the result of a whole pass \<^verbatim>\<open>refresh\<close> on a fresh value.
\<close>

theorem C7_Refresh_error:
  "(Refresh zRefresh H \<pi> ms = Inr (Some e, ms') \<longrightarrow>
      all ms' = all ms \<and> cmdline ms' = cmdline ms \<and> current ms' = current ms
      \<and> nextState ms' = nextState ms \<and> allSystemDatasets ms' = allSystemDatasets ms
      \<and> allUsersDatasets ms' = allUsersDatasets ms)
   \<and> (Refresh zRefresh H \<pi> ms = Inr (None, ms') \<longrightarrow>
      fst (zRefresh (z ms)) = None
      \<and> refresh H \<pi> \<lparr>all = fmempty, cmdline = cmdline ms, current = None, nextState = None,
                       allSystemDatasets = [], allUsersDatasets = [],
                       z = snd (zRefresh (z ms))\<rparr> = Inr ms')"
  unfolding Refresh_def Let_def
  by (auto split: prod.splits option.splits sum.splits)

text \<open>The theorem of C7 at a rescan that fails and at a rescan that finds no dataset.\<close>

theorem C7_Refresh_error_witness:
  "Refresh (\<lambda>ds. (Some ''scan failed'', ds)) ex_helpers ex_orders (ex_machines ex_inventory)
     = Inr (Some ''scan failed'', ex_machines ex_inventory)
   \<and> (\<exists>ms'. Refresh (\<lambda>ds. (None :: string option, [])) ex_helpers ex_orders
               (ex_machines ex_inventory) = Inr (None, ms')
            \<and> refresh ex_helpers ex_orders (ex_machines []) = Inr ms')"
proof -
  have a: "Refresh (\<lambda>ds. (Some ''scan failed'', ds)) ex_helpers ex_orders
             (ex_machines ex_inventory) = Inr (Some ''scan failed'', ex_machines ex_inventory)"
    by (simp add: Refresh_def Let_def ex_machines_def)
  have f: "\<not> isl (refresh ex_helpers ex_orders (ex_machines []))"
    by code_simp
  then obtain ms' where r: "refresh ex_helpers ex_orders (ex_machines []) = Inr ms'"
    by (cases "refresh ex_helpers ex_orders (ex_machines [])") auto
  have b: "Refresh (\<lambda>ds. (None :: string option, [])) ex_helpers ex_orders
             (ex_machines ex_inventory) = Inr (None, ms')"
    using r by (simp add: Refresh_def Let_def ex_machines_def)
  from C7_Refresh_error[where zRefresh = "\<lambda>ds. (Some ''scan failed'', ds)" and H = ex_helpers
      and \<pi> = ex_orders and ms = "ex_machines ex_inventory" and e = "''scan failed''"
      and ms' = "ex_machines ex_inventory"] a
  have "allUsersDatasets (ex_machines ex_inventory) = allUsersDatasets (ex_machines ex_inventory)"
    by blast
  from C7_Refresh_error[where zRefresh = "\<lambda>ds. (None :: string option, [])" and H = ex_helpers
      and \<pi> = ex_orders and ms = "ex_machines ex_inventory" and ms' = ms'] b
  have "refresh ex_helpers ex_orders
          \<lparr>all = fmempty, cmdline = cmdline (ex_machines ex_inventory), current = None,
           nextState = None, allSystemDatasets = [], allUsersDatasets = [],
           z = snd ((\<lambda>ds. (None :: string option, [])) (z (ex_machines ex_inventory)))\<rparr> = Inr ms'"
    by blast
  then have "refresh ex_helpers ex_orders (ex_machines []) = Inr ms'"
    by (simp add: ex_machines_def)
  with a b show ?thesis by blast
qed

subsection \<open>C8: no dataset with \<^verbatim>\<open>canmount=off\<close> in \<open>allUsersDatasets\<close>\<close>

text \<open>
  Claim C8. When a pass on a value whose \<open>allUsersDatasets\<close> is empty (as \<^verbatim>\<open>New\<close>
  and \<^verbatim>\<open>Refresh\<close> make it) returns, \<open>allUsersDatasets\<close> consists exactly of the
  datasets of the user bucket of the triage whose \<open>CanMount\<close> is not \<^verbatim>\<open>"off"\<close>, in the
  order of the bucket; so no dataset with \<open>CanMount\<close> \<^verbatim>\<open>"off"\<close> is in it.
\<close>

theorem C8_mount_filter:
  "refresh H \<pi> ms = Inr ms' \<and> allUsersDatasets ms = [] \<longrightarrow>
     allUsersDatasets ms' =
       filter (\<lambda>d. CanMount d \<noteq> ''off'')
         (userdatas (triageDatasets (isChild H) (triage_order \<pi>) ms
            (mainDatasets (resolveOrigin H (sortedDataset H (z ms)) ''/'') (sortedDataset H (z ms))
             @ cloneDatasets (resolveOrigin H (sortedDataset H (z ms)) ''/'') (sortedDataset H (z ms))
             @ otherDatasets (resolveOrigin H (sortedDataset H (z ms)) ''/'') (sortedDataset H (z ms)))
            (resolveOrigin H (sortedDataset H (z ms)) ''/'')))
     \<and> (\<forall>d\<in>set (allUsersDatasets ms'). CanMount d \<noteq> ''off'')"
proof (intro impI)
  assume a: "refresh H \<pi> ms = Inr ms' \<and> allUsersDatasets ms = []"
  let ?t = "triageDatasets (isChild H) (triage_order \<pi>) ms
            (mainDatasets (resolveOrigin H (sortedDataset H (z ms)) ''/'') (sortedDataset H (z ms))
             @ cloneDatasets (resolveOrigin H (sortedDataset H (z ms)) ''/'') (sortedDataset H (z ms))
             @ otherDatasets (resolveOrigin H (sortedDataset H (z ms)) ''/'') (sortedDataset H (z ms)))
            (resolveOrigin H (sortedDataset H (z ms)) ''/'')"
  have t: "allUsersDatasets (machines ?t) = []"
    unfolding triageDatasets_def using a by (simp add: triageDatasets_from_fields)
  from a obtain ud ms1 where
    ms1: "attachMachines (machine_order \<pi>) (boots ?t) (persistents ?t) ud
            (sortedMachineKeys (all (machines ?t))) (machines ?t) = Inr ms1"
    and res: "allUsersDatasets ms' =
                allUsersDatasets ms1 @ filter (\<lambda>d. CanMount d \<noteq> ''off'') (userdatas ?t)"
    unfolding refresh_def Let_def by (auto split: sum.splits)
  have "allUsersDatasets ms1 = []"
    using attachMachines_allUsersDatasets[OF ms1] t by simp
  with res have eq: "allUsersDatasets ms' = filter (\<lambda>d. CanMount d \<noteq> ''off'') (userdatas ?t)"
    by simp
  then show "allUsersDatasets ms' = filter (\<lambda>d. CanMount d \<noteq> ''off'') (userdatas ?t)
     \<and> (\<forall>d\<in>set (allUsersDatasets ms'). CanMount d \<noteq> ''off'')"
    by simp
qed

text \<open>The theorem of C8 on an inventory with a user dataset that has
  \<^verbatim>\<open>canmount=off\<close>.\<close>

theorem C8_mount_filter_witness:
  "\<exists>ms'. refresh ex_helpers ex_orders (ex_machines ex_inventory) = Inr ms'
         \<and> allUsersDatasets (ex_machines ex_inventory) = []
         \<and> (\<forall>d\<in>set (allUsersDatasets ms'). CanMount d \<noteq> ''off'')"
proof -
  have f: "\<not> isl (refresh ex_helpers ex_orders (ex_machines ex_inventory))"
    by code_simp
  then obtain ms' where r: "refresh ex_helpers ex_orders (ex_machines ex_inventory) = Inr ms'"
    by (cases "refresh ex_helpers ex_orders (ex_machines ex_inventory)") auto
  have e: "allUsersDatasets (ex_machines ex_inventory) = []"
    by (simp add: ex_machines_def)
  from C8_mount_filter[where H = ex_helpers and \<pi> = ex_orders
      and ms = "ex_machines ex_inventory" and ms' = ms'] r e
  have "\<forall>d\<in>set (allUsersDatasets ms'). CanMount d \<noteq> ''off''"
    by blast
  with r e show ?thesis by blast
qed

subsection \<open>C9: \<open>LastUsed\<close> is nil exactly when the dataset has none\<close>

text \<open>
  Claim C9. The machine that \<^verbatim>\<open>newMachineFromDataset\<close> creates from \<open>d\<close> and the history
  state that \<^verbatim>\<open>attachSystemAndHistory\<close> creates from \<open>d\<close> have a nil \<open>LastUsed\<close> if and
  only if \<open>d.LastUsed\<close> is 0, and otherwise the time \<^verbatim>\<open>time.Unix(d.LastUsed, 0)\<close>. After
  the triage of a fresh value this holds of every machine and every history state, each
  with the dataset it was created from: the first of its system datasets, whose name is
  its key.
\<close>

theorem C9_last_used:
  "(newMachineFromDataset d orig = Some m \<longrightarrow>
      (StateLastUsed m = None \<longleftrightarrow> LastUsed d = 0)
      \<and> (LastUsed d \<noteq> 0 \<longrightarrow> StateLastUsed m = Some (Unix (LastUsed d) 0)))
   \<and> (StateLastUsed (historyState d) = None \<longleftrightarrow> LastUsed d = 0)
   \<and> (LastUsed d \<noteq> 0 \<longrightarrow> StateLastUsed (historyState d) = Some (Unix (LastUsed d) 0))
   \<and> (all ms = fmempty
        \<and> fmlookup (all (machines (triageDatasets ic \<pi> ms ds origins))) k = Some mk \<longrightarrow>
        (\<exists>d\<in>set ds. Name d = k \<and> (\<exists>rest. SystemDatasets mk = d # rest)
            \<and> (StateLastUsed mk = None \<longleftrightarrow> LastUsed d = 0)
            \<and> (LastUsed d \<noteq> 0 \<longrightarrow> StateLastUsed mk = Some (Unix (LastUsed d) 0)))
        \<and> (\<forall>n h. fmlookup (History mk) n = Some h \<longrightarrow>
              (\<exists>d\<in>set ds. Name d = n \<and> (\<exists>rest. SystemDatasets h = d # rest)
                  \<and> (StateLastUsed h = None \<longleftrightarrow> LastUsed d = 0)
                  \<and> (LastUsed d \<noteq> 0 \<longrightarrow> StateLastUsed h = Some (Unix (LastUsed d) 0)))))"
proof (intro conjI impI)
  assume "newMachineFromDataset d orig = Some m"
  then show "StateLastUsed m = None \<longleftrightarrow> LastUsed d = 0"
    unfolding newMachineFromDataset_Some by simp
next
  assume "newMachineFromDataset d orig = Some m" and "LastUsed d \<noteq> 0"
  then show "StateLastUsed m = Some (Unix (LastUsed d) 0)"
    unfolding newMachineFromDataset_Some by simp
next
  show "StateLastUsed (historyState d) = None \<longleftrightarrow> LastUsed d = 0"
    unfolding historyState_def Let_def by simp
next
  assume "LastUsed d \<noteq> 0"
  then show "StateLastUsed (historyState d) = Some (Unix (LastUsed d) 0)"
    unfolding historyState_def Let_def by simp
next
  assume a: "all ms = fmempty
        \<and> fmlookup (all (machines (triageDatasets ic \<pi> ms ds origins))) k = Some mk"
  then have inv: "triage_inv origins (set ds) (all (machines (triageDatasets ic \<pi> ms ds origins)))"
    by (simp add: triage_inv_triageDatasets)
  from inv a obtain d0 where d0: "d0 \<in> set ds" "Name d0 = k" "stateFrom d0 mk"
    unfolding triage_inv_def by blast
  then show "\<exists>d\<in>set ds. Name d = k \<and> (\<exists>rest. SystemDatasets mk = d # rest)
            \<and> (StateLastUsed mk = None \<longleftrightarrow> LastUsed d = 0)
            \<and> (LastUsed d \<noteq> 0 \<longrightarrow> StateLastUsed mk = Some (Unix (LastUsed d) 0))"
    unfolding stateFrom_def by (intro bexI[of _ d0]) auto
  show "\<forall>n h. fmlookup (History mk) n = Some h \<longrightarrow>
              (\<exists>d\<in>set ds. Name d = n \<and> (\<exists>rest. SystemDatasets h = d # rest)
                  \<and> (StateLastUsed h = None \<longleftrightarrow> LastUsed d = 0)
                  \<and> (LastUsed d \<noteq> 0 \<longrightarrow> StateLastUsed h = Some (Unix (LastUsed d) 0)))"
  proof (intro allI impI)
    fix n h assume "fmlookup (History mk) n = Some h"
    with inv a obtain d1 where d1: "d1 \<in> set ds" "Name d1 = n" "stateFrom d1 h"
      unfolding triage_inv_def by blast
    then show "\<exists>d\<in>set ds. Name d = n \<and> (\<exists>rest. SystemDatasets h = d # rest)
                  \<and> (StateLastUsed h = None \<longleftrightarrow> LastUsed d = 0)
                  \<and> (LastUsed d \<noteq> 0 \<longrightarrow> StateLastUsed h = Some (Unix (LastUsed d) 0))"
      unfolding stateFrom_def by (intro bexI[of _ d1]) auto
  qed
qed

text \<open>The theorem of C9 at the main root \<^verbatim>\<open>rpool/ROOT/u1\<close>, last used at time 100, and
  at its clone \<^verbatim>\<open>rpool/ROOT/u2\<close>, never used.\<close>

theorem C9_last_used_witness:
  "(\<exists>m. newMachineFromDataset ex_root (Some '''') = Some m
        \<and> StateLastUsed m = Some (Unix 100 0))
   \<and> StateLastUsed (historyState ex_clone) = None
   \<and> StateLastUsed (historyState ex_root) = Some (Unix 100 0)
   \<and> (\<exists>mk. fmlookup (all (machines ex_triage)) ''rpool/ROOT/u1'' = Some mk
          \<and> StateLastUsed mk = Some (Unix 100 0)
          \<and> (\<exists>h. fmlookup (History mk) ''rpool/ROOT/u2'' = Some h \<and> StateLastUsed h = None))"
proof -
  obtain m where m: "newMachineFromDataset ex_root (Some '''') = Some m"
    by (simp add: newMachineFromDataset_def)
  from C9_last_used[where d = ex_root and orig = "Some ''''" and m = m] m
  have a: "StateLastUsed m = Some (Unix 100 0)" by simp
  have b: "StateLastUsed (historyState ex_clone) = None"
    using C9_last_used[where d = ex_clone] by simp
  have c: "StateLastUsed (historyState ex_root) = Some (Unix 100 0)"
    using C9_last_used[where d = ex_root] by simp
  have "''rpool/ROOT/u1'' |\<in>| fmdom (all (machines ex_triage))"
    by (simp add: ex_triage_dom)
  then obtain mk where mk: "fmlookup (all (machines ex_triage)) ''rpool/ROOT/u1'' = Some mk"
    by auto
  have hk: "''rpool/ROOT/u2'' |\<in>| fmdom (History mk)"
    using ex_triage_history mk by simp
  then obtain h where h: "fmlookup (History mk) ''rpool/ROOT/u2'' = Some h"
    by auto
  have e: "all (ex_machines []) = fmempty" by simp
  from C9_last_used[where ms = "ex_machines []" and ic = "isChild ex_helpers"
      and \<pi> = "\<lambda>i. ex_triage_orders" and ds = "[ex_root, ex_clone]" and origins = ex_origins
      and k = "''rpool/ROOT/u1''" and mk = mk] e mk
  have g1: "\<exists>d\<in>set [ex_root, ex_clone]. Name d = ''rpool/ROOT/u1''
            \<and> (\<exists>rest. SystemDatasets mk = d # rest)
            \<and> (StateLastUsed mk = None \<longleftrightarrow> LastUsed d = 0)
            \<and> (LastUsed d \<noteq> 0 \<longrightarrow> StateLastUsed mk = Some (Unix (LastUsed d) 0))"
    and g2: "\<forall>n h. fmlookup (History mk) n = Some h \<longrightarrow>
              (\<exists>d\<in>set [ex_root, ex_clone]. Name d = n \<and> (\<exists>rest. SystemDatasets h = d # rest)
                  \<and> (StateLastUsed h = None \<longleftrightarrow> LastUsed d = 0)
                  \<and> (LastUsed d \<noteq> 0 \<longrightarrow> StateLastUsed h = Some (Unix (LastUsed d) 0)))"
    unfolding ex_triage_def by blast+
  from g1 have k1: "StateLastUsed mk = Some (Unix 100 0)" by auto
  from g2 h have k2: "StateLastUsed h = None" by fastforce
  show ?thesis using m a b c mk k1 h k2 by blast
qed

end
